theory Spec2Isabelle
  imports Main
begin

section \<open>Python strings\<close>

text \<open>
  Strings of the source are Python \<open>str\<close> values. They are modelled as \<open>string\<close>
  (lists of 8-bit characters) and the character classes below are the ASCII part of
  Python's: a character outside ASCII is neither a space, a letter nor a digit here, and
  \<open>lower\<close>/\<open>upper\<close> leave it alone.
\<close>

definition is_space :: "char \<Rightarrow> bool" where
  \<comment> \<open>\<open>str.isspace\<close> on ASCII: tab, LF, VT, FF, CR, FS, GS, RS, US and the blank;
      also what \<open>str.strip()\<close>, \<open>str.split()\<close> and the regex class \<open>\s\<close> use.\<close>
  "is_space c \<longleftrightarrow> c \<in> set [CHR 0x09, CHR 0x0A, CHR 0x0B, CHR 0x0C, CHR 0x0D,
                              CHR 0x1C, CHR 0x1D, CHR 0x1E, CHR 0x1F, CHR '' '']"

definition is_digit :: "char \<Rightarrow> bool" where
  "is_digit c \<longleftrightarrow> c \<in> set ''0123456789''"

definition lower_char :: "char \<Rightarrow> char" where
  "lower_char c = (case map_of (zip ''ABCDEFGHIJKLMNOPQRSTUVWXYZ'' ''abcdefghijklmnopqrstuvwxyz'') c of
                     Some d \<Rightarrow> d | None \<Rightarrow> c)"

definition upper_char :: "char \<Rightarrow> char" where
  "upper_char c = (case map_of (zip ''abcdefghijklmnopqrstuvwxyz'' ''ABCDEFGHIJKLMNOPQRSTUVWXYZ'') c of
                     Some d \<Rightarrow> d | None \<Rightarrow> c)"

definition is_alpha :: "char \<Rightarrow> bool" where
  "is_alpha c \<longleftrightarrow> c \<in> set ''ABCDEFGHIJKLMNOPQRSTUVWXYZabcdefghijklmnopqrstuvwxyz''"

definition lower :: "string \<Rightarrow> string" where
  "lower s = map lower_char s"

definition upper :: "string \<Rightarrow> string" where
  "upper s = map upper_char s"

definition strip_where :: "(char \<Rightarrow> bool) \<Rightarrow> string \<Rightarrow> string" where
  "strip_where P s = rev (dropWhile P (rev (dropWhile P s)))"

definition strip :: "string \<Rightarrow> string" where
  \<comment> \<open>\<open>s.strip()\<close>\<close>
  "strip s = strip_where is_space s"

definition strip_char :: "char \<Rightarrow> string \<Rightarrow> string" where
  \<comment> \<open>\<open>s.strip(c)\<close> for a one-character argument\<close>
  "strip_char c s = strip_where (\<lambda>x. x = c) s"

definition replace_char :: "char \<Rightarrow> char \<Rightarrow> string \<Rightarrow> string" where
  \<comment> \<open>\<open>s.replace(a, b)\<close> for one-character \<open>a\<close> and \<open>b\<close>\<close>
  "replace_char a b s = map (\<lambda>c. if c = a then b else c) s"

definition remove_char :: "char \<Rightarrow> string \<Rightarrow> string" where
  \<comment> \<open>\<open>s.replace(a, '')\<close>\<close>
  "remove_char a s = filter (\<lambda>c. c \<noteq> a) s"

definition startswith :: "string \<Rightarrow> string \<Rightarrow> bool" where
  \<comment> \<open>\<open>s.startswith(p)\<close>, written \<open>startswith p s\<close>\<close>
  "startswith p s \<longleftrightarrow> take (length p) s = p"

fun contains :: "string \<Rightarrow> string \<Rightarrow> bool" where
  \<comment> \<open>\<open>sub in s\<close>, written \<open>contains sub s\<close>\<close>
  "contains sub [] = (sub = [])"
| "contains sub (c # cs) = (startswith sub (c # cs) \<or> contains sub cs)"

fun split_words :: "string \<Rightarrow> string \<Rightarrow> string list" where
  \<comment> \<open>\<open>s.split()\<close> is \<open>split_words [] s\<close>: the first argument is the word being read\<close>
  "split_words w [] = (if w = [] then [] else [w])"
| "split_words w (c # cs) =
     (if is_space c then (if w = [] then split_words [] cs else w # split_words [] cs)
      else split_words (w @ [c]) cs)"

fun join :: "string \<Rightarrow> string list \<Rightarrow> string" where
  \<comment> \<open>\<open>sep.join(xs)\<close>\<close>
  "join sep [] = []"
| "join sep [x] = x"
| "join sep (x # y # ys) = x @ sep @ join sep (y # ys)"

fun split_on :: "(char \<Rightarrow> bool) \<Rightarrow> string \<Rightarrow> string \<Rightarrow> string list" where
  \<comment> \<open>\<open>s.split(c)\<close> for a one-character separator: \<open>split_on (\<lambda>x. x = c) [] s\<close>; every
      separator ends a part, so empty parts are kept and the result is never empty\<close>
  "split_on P w [] = [w]"
| "split_on P w (c # cs) = (if P c then w # split_on P [] cs else split_on P (w @ [c]) cs)"

fun str_of_nat :: "nat \<Rightarrow> string" where
  \<comment> \<open>\<open>str(n)\<close> for a non-negative integer\<close>
  "str_of_nat n =
     (if n < 10 then [''0123456789'' ! n]
      else str_of_nat (n div 10) @ [''0123456789'' ! (n mod 10)])"

section \<open>Header normalization\<close>

definition normalize_bulk_header :: "string \<Rightarrow> string" where
  \<comment> \<open>\<open>' '.join((value or '').replace('\n', ' ').replace('\r', ' ').strip().lower().split())\<close>\<close>
  "normalize_bulk_header v =
     join '' '' (split_words []
       (lower (strip (replace_char (CHR 0x0D) CHR '' '' (replace_char (CHR 0x0A) CHR '' '' v)))))"

section \<open>Dictionaries\<close>

text \<open>
  A Python \<open>dict\<close> whose iteration order matters is an association list with distinct
  keys in insertion order: storing under a key that is present replaces the value and
  keeps the key's position, storing under a new key appends. \<open>d.get(k)\<close> is
  \<open>map_of d k\<close>. A dict that is only looked up (a spreadsheet row) is a map.
\<close>

fun dict_set :: "('k \<times> 'v) list \<Rightarrow> 'k \<Rightarrow> 'v \<Rightarrow> ('k \<times> 'v) list" where
  "dict_set [] k v = [(k, v)]"
| "dict_set ((k', v') # d) k v =
     (if k' = k then (k', v) # d else (k', v') # dict_set d k v)"

type_synonym row = "string \<rightharpoonup> string"
type_synonym index_map = "(string \<times> string) list"

definition header_index_map :: "string list \<Rightarrow> index_map" where
  \<comment> \<open>\<open>{normalize_bulk_header(h): h for h in headers if h}\<close>\<close>
  "header_index_map headers =
     foldl (\<lambda>d h. dict_set d (normalize_bulk_header h) h) [] (filter (\<lambda>h. h \<noteq> []) headers)"

definition normalized_headers :: "string list \<Rightarrow> string list" where
  \<comment> \<open>\<open>[normalize_bulk_header(h) for h in headers if h]\<close>\<close>
  "normalized_headers headers = map normalize_bulk_header (filter (\<lambda>h. h \<noteq> []) headers)"

definition get_from_row :: "row \<Rightarrow> index_map \<Rightarrow> string \<Rightarrow> string \<Rightarrow> string" where
  \<comment> \<open>\<open>get_from_row(row, index_map, key, default)\<close>; every caller passes the default \<open>''\<close>\<close>
  "get_from_row row im key dflt =
     (case map_of im (normalize_bulk_header key) of
        None \<Rightarrow> dflt
      | Some idx \<Rightarrow> strip (case row idx of Some v \<Rightarrow> v | None \<Rightarrow> dflt))"

section \<open>Row extractor\<close>

definition is_multi_sep :: "char \<Rightarrow> bool" where
  \<comment> \<open>the class \<open>[,/|;\n]\<close>\<close>
  "is_multi_sep c \<longleftrightarrow> c \<in> set [CHR '','', CHR ''/'', CHR ''|'', CHR '';'', CHR 0x0A]"

fun re_split_runs :: "(char \<Rightarrow> bool) \<Rightarrow> string \<Rightarrow> bool \<Rightarrow> string \<Rightarrow> string list" where
  \<comment> \<open>\<open>re.split('[...]+', s)\<close> is \<open>re_split_runs P [] False s\<close>: a maximal run of
      separators ends one part; the flag says that the previous character was a separator\<close>
  "re_split_runs P w sep [] = [w]"
| "re_split_runs P w sep (c # cs) =
     (if P c then (if sep then re_split_runs P w True cs else w # re_split_runs P [] True cs)
      else re_split_runs P (w @ [c]) False cs)"

definition split_multi_value :: "string \<Rightarrow> string list" where
  "split_multi_value raw =
     (let text = strip raw in
      if text = [] then []
      else filter (\<lambda>v. v \<noteq> []) (map strip (re_split_runs is_multi_sep [] False text)))"

definition is_float_zero :: "string \<Rightarrow> bool" where
  \<comment> \<open>\<open>re.fullmatch(r'\d+\.0+', val)\<close>\<close>
  "is_float_zero val =
     (takeWhile is_digit val \<noteq> [] \<and>
      (case dropWhile is_digit val of
         [] \<Rightarrow> False
       | c # zs \<Rightarrow> c = CHR ''.'' \<and> zs \<noteq> [] \<and> list_all (\<lambda>z. z = CHR ''0'') zs))"

definition normalize_size_value :: "string \<Rightarrow> string" where
  "normalize_size_value v =
     (let val = strip v in
      if val = [] then []
      else if is_float_zero val then hd (split_on (\<lambda>c. c = CHR ''.'') [] val)
      else val)"

definition get_non_empty_by_header_match ::
  "row \<Rightarrow> index_map \<Rightarrow> (string \<Rightarrow> bool) \<Rightarrow> (string \<times> string \<times> string) list" where
  "get_non_empty_by_header_match row im matcher =
     concat (map (\<lambda>(normalized, original).
        if matcher normalized
        then (let v = strip (case row original of Some x \<Rightarrow> x | None \<Rightarrow> [])
              in if v \<noteq> [] then [(normalized, original, v)] else [])
        else []) im)"

definition match_size_qty :: "string \<Rightarrow> (string \<times> nat) option" where
  \<comment> \<open>one match of \<open>([0-9]+(?:\.[0-9]+)?)\s*[:=]\s*[0-9]+\<close> at the start of the text: the
      captured group and the length of the match. Every repetition is followed by a
      character outside its class, so the greedy match is the only one.\<close>
  "match_size_qty s =
     (let d1 = takeWhile is_digit s; r1 = dropWhile is_digit s in
      if d1 = [] then None
      else
        let (frac, r2) =
              (case r1 of
                 [] \<Rightarrow> ([], r1)
               | c # t \<Rightarrow>
                   if c = CHR ''.'' \<and> takeWhile is_digit t \<noteq> []
                   then (c # takeWhile is_digit t, dropWhile is_digit t)
                   else ([], r1))
        in (case dropWhile is_space r2 of
              [] \<Rightarrow> None
            | c # r4 \<Rightarrow>
                if c = CHR '':'' \<or> c = CHR ''=''
                then (let r5 = dropWhile is_space r4 in
                      if takeWhile is_digit r5 = [] then None
                      else Some (d1 @ frac, length s - length (dropWhile is_digit r5)))
                else None))"

fun findall_size_qty :: "nat \<Rightarrow> string \<Rightarrow> string list" where
  \<comment> \<open>\<open>re.findall\<close> of that pattern is \<open>findall_size_qty 0 s\<close>: the leftmost match, then
      on from its end; the counter is the number of characters still inside the last match\<close>
  "findall_size_qty skip [] = []"
| "findall_size_qty skip (c # cs) =
     (if 0 < skip then findall_size_qty (skip - 1) cs
      else (case match_size_qty (c # cs) of
              Some (tok, n) \<Rightarrow> tok # findall_size_qty (n - 1) cs
            | None \<Rightarrow> findall_size_qty 0 cs))"

definition add_sizes :: "string list \<Rightarrow> string list \<Rightarrow> string list" where
  \<comment> \<open>the loop body shared by the three passes:
      \<open>s = normalize_size_value(token); if s and s not in seen: seen.add(s); sizes.append(s)\<close>;
      \<open>seen\<close> holds exactly the elements of \<open>sizes\<close>\<close>
  "add_sizes sizes tokens =
     foldl (\<lambda>acc token. let s = normalize_size_value token in
                         if s \<noteq> [] \<and> s \<notin> set acc then acc @ [s] else acc) sizes tokens"

definition is_extra_size_header :: "string \<Rightarrow> bool" where
  "is_extra_size_header n \<longleftrightarrow>
     (contains ''size'' n \<or> contains ''variant'' n) \<and>
     n \<notin> set [normalize_bulk_header ''Length Size'', normalize_bulk_header ''Width Size'',
                normalize_bulk_header ''Heel Height'', normalize_bulk_header ''Heel Height (in)'']"

definition size_tokens_of_cell :: "string \<Rightarrow> string list" where
  \<comment> \<open>\<open>pairs if pairs else split_multi_value(value)\<close>\<close>
  "size_tokens_of_cell v =
     (let pairs = findall_size_qty 0 v in if pairs \<noteq> [] then pairs else split_multi_value v)"

definition extract_variant_sizes :: "row \<Rightarrow> index_map \<Rightarrow> string list" where
  "extract_variant_sizes row im =
     (let sizes1 = add_sizes [] (split_multi_value (get_from_row row im ''Size'' []));
          extra_size_cols = get_non_empty_by_header_match row im is_extra_size_header;
          sizes2 = foldl (\<lambda>acc (n, orig, v). add_sizes acc (size_tokens_of_cell v))
                         sizes1 extra_size_cols
      in if sizes2 = []
         then add_sizes sizes2 [get_from_row row im ''Length Size'' [],
                                get_from_row row im ''Width Size'' []]
         else sizes2)"

definition endswith :: "string \<Rightarrow> string \<Rightarrow> bool" where
  \<comment> \<open>\<open>s.endswith(suf)\<close>, written \<open>endswith suf s\<close>\<close>
  "endswith suf s \<longleftrightarrow> startswith (rev suf) (rev s)"

definition image_extensions :: "string list" where
  "image_extensions = [''jpg'', ''jpeg'', ''png'', ''gif'', ''webp'', ''avif'']"

definition has_image_extension :: "string \<Rightarrow> bool" where
  \<comment> \<open>\<open>re.search(r'\.(jpg|jpeg|png|gif|webp|avif)$', lowered)\<close>: \<open>$\<close> matches at the end
      of the text and also just before a line feed that ends the text\<close>
  "has_image_extension lowered \<longleftrightarrow>
     list_ex (\<lambda>e. endswith (CHR ''.'' # e) lowered \<or> endswith (CHR ''.'' # e @ [CHR 0x0A]) lowered)
             image_extensions"

definition clean_image_reference :: "string \<Rightarrow> string" where
  \<comment> \<open>the first lines of \<open>normalize_image_reference\<close>:
      \<open>str(value or '').strip().strip('"').strip("'")\<close>, then \<open>replace('\\', '/')\<close>\<close>
  "clean_image_reference v =
     replace_char (CHR 0x5C) CHR ''/'' (strip_char (CHR 0x27) (strip_char (CHR 0x22) (strip v)))"

definition normalize_image_reference :: "string \<Rightarrow> string" where
  "normalize_image_reference v =
     (let raw = clean_image_reference v; lowered = lower raw in
      if raw = [] then []
      else if list_ex (\<lambda>p. startswith p lowered) [''http://'', ''https://'', ''data:image'', ''blob:'']
        then raw
      else if startswith ''/static/'' raw then raw
      else if startswith ''static/'' raw then ''/'' @ raw
      else if startswith ''images/'' raw then ''/static/'' @ raw
      else if startswith ''/images/'' raw then ''/static'' @ raw
      else if has_image_extension lowered
        then ''/static/images/products/'' @ last (split_on (\<lambda>c. c = CHR ''/'') [] raw)
      else raw)"

definition add_unique :: "string list \<Rightarrow> string list \<Rightarrow> string list" where
  \<comment> \<open>\<open>for t in tokens: if t and t not in seen: seen.add(t); out.append(t)\<close>\<close>
  "add_unique out tokens =
     foldl (\<lambda>acc t. if t \<noteq> [] \<and> t \<notin> set acc then acc @ [t] else acc) out tokens"

definition is_image_header :: "string \<Rightarrow> bool" where
  "is_image_header n \<longleftrightarrow>
     (contains ''image'' n \<or> contains ''img'' n \<or> contains ''photo'' n \<or> contains ''pic'' n) \<and>
     \<not> contains ''tag'' n \<and> \<not> contains ''alt'' n \<and> \<not> contains ''label'' n"

definition is_tag_header :: "string \<Rightarrow> bool" where
  "is_tag_header n \<longleftrightarrow> contains ''tag'' n \<or> contains ''label'' n \<or> contains ''keyword'' n"

definition extract_image_data :: "row \<Rightarrow> index_map \<Rightarrow> string list \<times> string list" where
  "extract_image_data row im =
     (let image_cells = get_non_empty_by_header_match row im is_image_header;
          image_urls = foldl (\<lambda>acc (n, orig, v).
                          add_unique acc (map (\<lambda>token. normalize_image_reference (strip token))
                                              (split_multi_value v)))
                        [] image_cells;
          tag_cells = get_non_empty_by_header_match row im is_tag_header;
          tags = foldl (\<lambda>acc (n, orig, v). add_unique acc (map strip (split_multi_value v)))
                       [] tag_cells
      in (image_urls, tags))"

section \<open>Numbers\<close>

text \<open>
  Python's \<open>float(text)\<close> and \<open>int(x)\<close> of a float are parameters of the model:
  \<open>float_of text\<close> is \<open>None\<close> where \<open>float\<close> raises \<open>ValueError\<close>, and \<open>int_of x\<close> is
  \<open>None\<close> where \<open>int\<close> raises (on an infinity or a NaN). The type \<open>'f\<close> of the numbers is
  a parameter too; the default \<open>0\<close> of the source is its zero.
\<close>

record 'f numerics =
  float_of :: "string \<Rightarrow> 'f option"
  int_of :: "'f \<Rightarrow> int option"

definition parse_number :: "'f numerics \<Rightarrow> string \<Rightarrow> 'f \<Rightarrow> 'f" where
  "parse_number N v dflt =
     (let cleaned = remove_char CHR '','' (strip v) in
      if cleaned = [] then dflt
      else (case float_of N cleaned of Some x \<Rightarrow> x | None \<Rightarrow> dflt))"

datatype error =
    IntConversionError  \<comment> \<open>\<open>int\<close> of an infinity (\<open>OverflowError\<close>) or of a NaN (\<open>ValueError\<close>)\<close>
  | ValueError string
  | InvalidOperation  \<comment> \<open>\<open>decimal.InvalidOperation\<close>: an order comparison of a NaN\<close>
  | OtherError string

definition bind_result :: "error + 'a \<Rightarrow> ('a \<Rightarrow> error + 'b) \<Rightarrow> error + 'b" where
  \<comment> \<open>sequencing: an exception raised by the first step ends the computation\<close>
  "bind_result r f = (case r of Inl e \<Rightarrow> Inl e | Inr x \<Rightarrow> f x)"

definition parse_int :: "'f numerics \<Rightarrow> string \<Rightarrow> int \<Rightarrow> error + int" where
  \<comment> \<open>\<open>int(parse_number(value, default))\<close> with the integer default \<open>0\<close> of the callers:
      \<open>int\<close> of the default is the default, \<open>int\<close> of a parsed float may raise\<close>
  "parse_int N v dflt =
     (let cleaned = remove_char CHR '','' (strip v) in
      if cleaned = [] then Inr dflt
      else (case float_of N cleaned of
              None \<Rightarrow> Inr dflt
            | Some x \<Rightarrow> (case int_of N x of None \<Rightarrow> Inl IntConversionError | Some i \<Rightarrow> Inr i)))"

section \<open>Record mapper\<close>

record 'f variant =
  vsize :: string
  vcolor :: string
  vprice :: 'f

datatype 'f pyval =
    PStr string
  | PNum 'f
  | PInt int
  | PStrs "string list"
  | PVariants "'f variant list"
  | PTime nat

type_synonym 'f product = "(string \<times> 'f pyval) list"

definition BULK_REQUIRED_ATTRIBUTES :: "string list" where
  "BULK_REQUIRED_ATTRIBUTES =
     [''SKU'', ''Product Name'', ''Description'', ''Ornamentation'', ''Occasion'',
      ''Generic Name'', ''Size'', ''Fastening & Back Detail'', ''Heel Height'', ''Heel Type'',
      ''Heel Height (in)'', ''Insole'', ''Material'', ''Sole Material'', ''Pattern'', ''Type'',
      ''Net Quantity'', ''MRP'', ''Selling Price'', ''Wrong/Defective Returns Price'',
      ''Length Size'', ''Width Size'', ''Net Weight'', ''HSN Code'', ''GST'', ''Color'',
      ''Ankle Height'', ''Toe Type'', ''COUNTRY OF ORIGIN'', ''Manufacturer Name'',
      ''Manufacturer Address'']"

definition placeholder_image :: string where
  "placeholder_image = ''https://via.placeholder.com/400x400''"

definition numbered_images :: "string list \<Rightarrow> (string \<times> string) list" where
  \<comment> \<open>\<open>enumerate(image_urls[:8], start=1)\<close> with the key \<open>f'image_{idx}'\<close>\<close>
  "numbered_images image_urls =
     map (\<lambda>(i, url). (''image_'' @ str_of_nat (Suc i), url)) (enumerate 0 (take 8 image_urls))"

definition product_literal ::
  "'f::zero numerics \<Rightarrow> nat \<Rightarrow> row \<Rightarrow> index_map \<Rightarrow> string list \<Rightarrow> string list \<Rightarrow> 'f \<Rightarrow> 'f \<Rightarrow>
     int \<Rightarrow> int \<Rightarrow> 'f product" where
  \<comment> \<open>the dict literal \<open>product = {...}\<close> of \<open>build_product_from_bulk_row\<close>, from the values
      computed before it: \<open>sizes\<close>, \<open>image_urls\<close>, \<open>price\<close>, \<open>mrp\<close>, \<open>inventory\<close>, and the
      weight, whose \<open>parse_int\<close> can raise\<close>
  "product_literal N now row im sizes image_urls price mrp inventory weight =
     (let g = (\<lambda>key. get_from_row row im key []) in
     [(''sku_id'', PStr (g ''SKU'')),
      (''product_name'', PStr (g ''Product Name'')),
      (''name'', PStr (g ''Product Name'')),
      (''description'', PStr (g ''Description'')),
      (''ornamentation'', PStr (g ''Ornamentation'')),
      (''occasion'', PStr (g ''Occasion'')),
      (''generic_name'', PStr (g ''Generic Name'')),
      (''sizes'', PStrs sizes),
      (''fastening'', PStr (g ''Fastening & Back Detail'')),
      (''heel_height'', PStr (g ''Heel Height'')),
      (''heel_type'', PStr (g ''Heel Type'')),
      (''heel_height_in'', PStr (g ''Heel Height (in)'')),
      (''insole'', PStr (g ''Insole'')),
      (''material'', PStr (g ''Material'')),
      (''sole_material'', PStr (g ''Sole Material'')),
      (''pattern'', PStr (g ''Pattern'')),
      (''type'', PStr (g ''Type'')),
      (''mrp'', PNum mrp),
      (''price'', PNum price),
      (''meesho_price'', PNum price),
      (''return_price'', PNum (parse_number N (g ''Wrong/Defective Returns Price'') 0)),
      (''length_size'', PStr (g ''Length Size'')),
      (''width_size'', PStr (g ''Width Size'')),
      (''weight'', PInt weight),
      (''hsn_code'', PStr (g ''HSN Code'')),
      (''gst'', PStr (g ''GST'')),
      (''color'', PStr (g ''Color'')),
      (''ankle_height'', PStr (g ''Ankle Height'')),
      (''toe_type'', PStr (g ''Toe Type'')),
      (''origin'', PStr (g ''COUNTRY OF ORIGIN'')),
      (''mfg_name'', PStr (g ''Manufacturer Name'')),
      (''mfg_address'', PStr (g ''Manufacturer Address'')),
      (''category'', PStr (if g ''Type'' \<noteq> [] then g ''Type'' else ''General'')),
      (''inventory'', PInt inventory),
      (''image_1'', PStr (if image_urls \<noteq> [] then hd image_urls else placeholder_image)),
      (''created_at'', PTime now),
      (''updated_at'', PTime now)])"

definition build_product_from_bulk_row ::
  "'f::zero numerics \<Rightarrow> nat \<Rightarrow> row \<Rightarrow> index_map \<Rightarrow> error + 'f product" where
  \<comment> \<open>the second argument is \<open>datetime.now()\<close>\<close>
  "build_product_from_bulk_row N now row im =
     (let g = (\<lambda>key. get_from_row row im key []);
          sizes = extract_variant_sizes row im;
          (image_urls, tags) = extract_image_data row im;
          price = parse_number N (g ''Selling Price'') 0;
          mrp = parse_number N (g ''MRP'') price
      in (case parse_int N (g ''Net Quantity'') 0 of
           Inl e \<Rightarrow> Inl e
         | Inr inventory \<Rightarrow>
     (let color = g ''Color'';
          variants = (if sizes \<noteq> []
                      then map (\<lambda>s. \<lparr>vsize = s, vcolor = color, vprice = price\<rparr>) sizes else [])
      in (case parse_int N (g ''Net Weight'') 0 of
           Inl e \<Rightarrow> Inl e
         | Inr weight \<Rightarrow>
     (let product = product_literal N now row im sizes image_urls price mrp inventory weight;
          product1 = foldl (\<lambda>d (k, url). dict_set d k (PStr url)) product (numbered_images image_urls);
          product2 = (if image_urls \<noteq> [] then dict_set product1 ''images'' (PStrs image_urls) else product1);
          product3 = (if tags \<noteq> [] then dict_set product2 ''tags'' (PStrs tags) else product2);
          product4 = (if variants \<noteq> [] then dict_set product3 ''variants'' (PVariants variants) else product3)
      in Inr product4)))))"

section \<open>Spreadsheet reader: the zipped XML container\<close>

text \<open>
  The reader gets the archive from \<open>zipfile\<close> and its parts from \<open>ElementTree\<close>. The
  model starts from the parsed parts: what the reader asks of an element is a field
  here. A part that is not in the archive is \<open>None\<close>.
\<close>

record xml_cell =
  c_ref :: "string option"  \<comment> \<open>the attribute \<open>r\<close>\<close>
  c_type :: "string option"  \<comment> \<open>the attribute \<open>t\<close>\<close>
  c_v :: "string option option"  \<comment> \<open>the child \<open>a:v\<close>, and its text\<close>
  c_inline :: "string option option"  \<comment> \<open>the first descendant \<open>a:t\<close>, and its text\<close>

record xlsx_archive =
  shared_strings_part :: "string option list list option"
    \<comment> \<open>\<open>xl/sharedStrings.xml\<close>: for every \<open>a:si\<close> the texts of its descendants \<open>a:t\<close>\<close>
  sheet1_part :: "xml_cell list list option"
    \<comment> \<open>\<open>xl/worksheets/sheet1.xml\<close>: the elements \<open>a:c\<close> of every \<open>a:sheetData/a:row\<close>\<close>

definition text_or_empty :: "string option \<Rightarrow> string" where
  \<comment> \<open>\<open>t.text or ''\<close>\<close>
  "text_or_empty t = (case t of None \<Rightarrow> [] | Some x \<Rightarrow> x)"

definition read_shared_strings :: "xlsx_archive \<Rightarrow> string list" where
  "read_shared_strings wb =
     (case shared_strings_part wb of
        None \<Rightarrow> []
      | Some sis \<Rightarrow> map (\<lambda>ts. concat (map text_or_empty ts)) sis)"

definition col_ref_to_index :: "string \<Rightarrow> int" where
  "col_ref_to_index ref =
     (let letters = upper (filter is_alpha ref) in
      if letters = [] then - 1
      else foldl (\<lambda>idx ch. idx * 26 + (int (of_char ch) - int (of_char CHR ''A'') + 1)) 0 letters - 1)"

definition isdigit :: "string \<Rightarrow> bool" where
  \<comment> \<open>\<open>s.isdigit()\<close>\<close>
  "isdigit s \<longleftrightarrow> s \<noteq> [] \<and> list_all is_digit s"

definition int_of_digits :: "string \<Rightarrow> int" where
  \<comment> \<open>\<open>int(s)\<close> for a text of decimal digits\<close>
  "int_of_digits s = foldl (\<lambda>n c. n * 10 + (int (of_char c) - int (of_char CHR ''0''))) 0 s"

definition cell_value :: "string list \<Rightarrow> xml_cell \<Rightarrow> string" where
  "cell_value shared_strings cell =
     (if c_type cell = Some ''inlineStr''
      then (case c_inline cell of Some (Some t) \<Rightarrow> t | _ \<Rightarrow> [])
      else (case c_v cell of
              None \<Rightarrow> []
            | Some vtext \<Rightarrow>
                (let raw_value = text_or_empty vtext in
                 if c_type cell = Some ''s''
                 then (let idx = (if isdigit raw_value then int_of_digits raw_value else - 1) in
                       if 0 \<le> idx \<and> idx < int (length shared_strings)
                       then shared_strings ! nat idx else [])
                 else raw_value)))"

definition cells_to_map :: "string list \<Rightarrow> xml_cell list \<Rightarrow> (nat \<times> string) list" where
  \<comment> \<open>the loop that fills \<open>header_map\<close> and every \<open>row_map\<close>\<close>
  "cells_to_map shared_strings cells =
     foldl (\<lambda>d c. let col_idx = col_ref_to_index (case c_ref c of None \<Rightarrow> [] | Some r \<Rightarrow> r) in
                   if 0 \<le> col_idx then dict_set d (nat col_idx) (strip (cell_value shared_strings c))
                   else d) [] cells"

definition map_get :: "(nat \<times> string) list \<Rightarrow> nat \<Rightarrow> string" where
  \<comment> \<open>\<open>m.get(i, '')\<close>\<close>
  "map_get m i = (case map_of m i of None \<Rightarrow> [] | Some v \<Rightarrow> v)"

definition xlsx_headers :: "(nat \<times> string) list \<Rightarrow> string list" where
  \<comment> \<open>\<open>[header_map.get(i, '').strip() for i in range(max_header_idx + 1)]\<close>\<close>
  "xlsx_headers header_map =
     (if header_map = [] then []
      else map (\<lambda>i. strip (map_get header_map i)) [0 ..< Suc (foldr max (map fst header_map) 0)])"

definition xlsx_row_dict :: "string list \<Rightarrow> (nat \<times> string) list \<Rightarrow> row" where
  \<comment> \<open>\<open>{headers[i]: row_map.get(i, '') for i in range(len(headers))}\<close>\<close>
  "xlsx_row_dict headers row_map =
     foldl (\<lambda>m i. m(headers ! i \<mapsto> map_get row_map i)) Map.empty [0 ..< length headers]"

definition xlsx_rows_to_dicts :: "xlsx_archive \<Rightarrow> string list \<times> row list" where
  "xlsx_rows_to_dicts wb =
     (let shared_strings = read_shared_strings wb in
      case sheet1_part wb of
        None \<Rightarrow> ([], [])
      | Some [] \<Rightarrow> ([], [])
      | Some (header_cells # data_rows) \<Rightarrow>
          (let headers = xlsx_headers (cells_to_map shared_strings header_cells);
               row_maps = filter (\<lambda>row_map. list_ex (\<lambda>(i, v). v \<noteq> []) row_map)
                                 (map (cells_to_map shared_strings) data_rows)
           in (headers, map (xlsx_row_dict headers) row_maps)))"

section \<open>The document-oriented ingestion run\<close>

text \<open>
  The catalog is the collection \<open>products_collection\<close>: the list of its documents, in the
  order of insertion. An upload is its declared file name and what the two readers make
  of its bytes: \<open>csv_rows_to_dicts\<close> works through Python's \<open>csv\<close> module and is not
  modelled, so its result is a field; \<open>xlsx_rows_to_dicts\<close> reads the parsed archive.
\<close>

record file_storage =
  filename :: string
  csv_result :: "string list \<times> row list"
  xlsx_content :: xlsx_archive

record 'f outcome =
  ok :: bool
  errors :: "string list"
  created :: nat
  skipped :: nat
  collection :: "'f product list"

definition BULK_ALLOWED_EXTENSIONS :: "string list" where
  "BULK_ALLOWED_EXTENSIONS = [''csv'', ''xlsx'']"

definition find_one_sku :: "'f product list \<Rightarrow> string \<Rightarrow> 'f product option" where
  \<comment> \<open>\<open>products_collection.find_one({'sku_id': sku})\<close>\<close>
  "find_one_sku coll sku = find (\<lambda>d. map_of d ''sku_id'' = Some (PStr sku)) coll"

definition required_value :: "row \<Rightarrow> index_map \<Rightarrow> string \<Rightarrow> string" where
  \<comment> \<open>the value the row loop tests for one required attribute\<close>
  "required_value row im col =
     (let original_col = (case map_of im (normalize_bulk_header col) of None \<Rightarrow> col | Some h \<Rightarrow> h);
          val = strip (case row original_col of None \<Rightarrow> [] | Some v \<Rightarrow> v)
      in if val = [] \<and> col = ''Size'' then join '','' (extract_variant_sizes row im) else val)"

definition missing_values :: "row \<Rightarrow> index_map \<Rightarrow> string list" where
  "missing_values row im = filter (\<lambda>col. required_value row im col = []) BULK_REQUIRED_ATTRIBUTES"

definition sku_of :: "'f product \<Rightarrow> string" where
  \<comment> \<open>\<open>product_doc.get('sku_id', '')\<close>\<close>
  "sku_of d = (case map_of d ''sku_id'' of Some (PStr s) \<Rightarrow> s | _ \<Rightarrow> [])"

definition ingest_row ::
  "'f::zero numerics \<Rightarrow> nat \<Rightarrow> index_map \<Rightarrow> nat \<Rightarrow> row \<Rightarrow> 'f outcome \<Rightarrow> error + 'f outcome" where
  \<comment> \<open>the body of the loop \<open>for row_index, row in enumerate(rows, start=2)\<close>\<close>
  "ingest_row N now im row_index row st =
     (let missing = missing_values row im in
      if missing \<noteq> []
      then Inr (st\<lparr>skipped := skipped st + 1,
                  errors := errors st @
                    [''Row '' @ str_of_nat row_index @ '': missing value(s) in '' @ join '', '' missing]\<rparr>)
      else (case build_product_from_bulk_row N now row im of
              Inl e \<Rightarrow> Inl e
            | Inr product_doc \<Rightarrow>
                (let sku = sku_of product_doc in
                 if find_one_sku (collection st) sku \<noteq> None
                 then Inr (st\<lparr>skipped := skipped st + 1,
                             errors := errors st @
                               [''Row '' @ str_of_nat row_index @ '': SKU '' @ [CHR 0x22] @ sku @
                                [CHR 0x22] @ '' already exists'']\<rparr>)
                 else Inr (st\<lparr>collection := collection st @ [product_doc],
                             created := created st + 1\<rparr>))))"

fun ingest_rows ::
  "'f::zero numerics \<Rightarrow> nat \<Rightarrow> index_map \<Rightarrow> nat \<Rightarrow> row list \<Rightarrow> 'f outcome \<Rightarrow> error + 'f outcome" where
  \<comment> \<open>the loop, from \<open>row_index\<close> on\<close>
  "ingest_rows N now im row_index [] st = Inr st"
| "ingest_rows N now im row_index (row # rows) st =
     bind_result (ingest_row N now im row_index row st) (ingest_rows N now im (Suc row_index) rows)"

definition extension_of :: "string \<Rightarrow> string" where
  \<comment> \<open>\<open>filename.rsplit('.', 1)[-1].lower() if '.' in filename else ''\<close>\<close>
  "extension_of fname =
     (if CHR ''.'' \<in> set fname then lower (last (split_on (\<lambda>c. c = CHR ''.'') [] fname)) else [])"

definition read_upload :: "file_storage \<Rightarrow> string list \<times> row list" where
  \<comment> \<open>\<open>csv_rows_to_dicts(file_storage) if extension == 'csv' else xlsx_rows_to_dicts(file_storage)\<close>\<close>
  "read_upload fs =
     (if extension_of (filename fs) = ''csv'' then csv_result fs
      else xlsx_rows_to_dicts (xlsx_content fs))"

definition missing_columns :: "string list \<Rightarrow> string list" where
  \<comment> \<open>\<open>[h for h in BULK_REQUIRED_ATTRIBUTES if normalize_bulk_header(h) not in normalized_headers]\<close>\<close>
  "missing_columns headers =
     filter (\<lambda>h. normalize_bulk_header h \<notin> set (normalized_headers headers)) BULK_REQUIRED_ATTRIBUTES"

definition start_outcome :: "'f product list \<Rightarrow> 'f outcome" where
  \<comment> \<open>the counters and the error list before the first row\<close>
  "start_outcome coll = \<lparr>ok = True, errors = [], created = 0, skipped = 0, collection = coll\<rparr>"

definition failed_outcome :: "string \<Rightarrow> 'f product list \<Rightarrow> 'f outcome" where
  \<comment> \<open>\<open>return False, [msg], {'created': 0, 'skipped': 0}\<close>\<close>
  "failed_outcome msg coll = \<lparr>ok = False, errors = [msg], created = 0, skipped = 0, collection = coll\<rparr>"

definition process_bulk_upload_file ::
  "'f::zero numerics \<Rightarrow> nat \<Rightarrow> file_storage option \<Rightarrow> 'f product list \<Rightarrow> error + 'f outcome" where
  "process_bulk_upload_file N now file coll =
     (case file of
        None \<Rightarrow> Inr (failed_outcome ''No file selected'' coll)
      | Some fs \<Rightarrow>
          if filename fs = [] then Inr (failed_outcome ''No file selected'' coll)
          else if extension_of (filename fs) \<notin> set BULK_ALLOWED_EXTENSIONS
          then Inr (failed_outcome ''Only CSV and XLSX files are supported'' coll)
          else
            (let (headers, rows) = read_upload fs;
                 header_index = header_index_map headers;
                 missing = missing_columns headers
             in if missing \<noteq> []
                then Inr (failed_outcome (''Missing required column(s): '' @ join '', '' missing) coll)
                else ingest_rows N now header_index 2 rows (start_outcome coll)))"

section \<open>The relational engine\<close>

text \<open>
  \<open>BulkUploader\<close> of \<open>bulk_upload.py\<close>. The model starts from the frame that
  \<open>_load_file\<close> returns: the column names, stripped and in lower case, and for every row
  the text \<open>str\<close> gives for each cell (\<open>''\<close> for a blank one). \<open>Decimal(text)\<close>, the test
  for a NaN and \<open>json.loads\<close> of the variants cell are parameters. The database schema is
  not part of the sources: \<open>categories.slug\<close> is taken to be unique, as \<open>products.sku\<close>
  is by the statement's \<open>ON CONFLICT (sku)\<close>, and identifiers come from a counter.
  The tables of variants, inventory and attribute values are an abstract component that
  only \<open>_replace_variants\<close> and \<open>_upsert_attribute_values\<close>, two more parameters, write.
\<close>

record frame =
  columns :: "string list"
  frows :: "row list"

record validation_error =
  row_number :: nat
  message :: string

record ('d, 'v, 'c) engine =
  decimal_of :: "string \<Rightarrow> 'd option"
  is_nan :: "'d \<Rightarrow> bool"
  variants_of :: "string \<Rightarrow> 'v list"
  replace_variants :: "nat \<Rightarrow> 'v list \<Rightarrow> 'c \<Rightarrow> error + 'c"
  upsert_attribute_values :: "nat \<Rightarrow> (string \<times> string) list \<Rightarrow> 'c \<Rightarrow> error + 'c"
  clock :: nat  \<comment> \<open>\<open>NOW()\<close>\<close>

definition REQUIRED_COLUMNS :: "string list" where
  "REQUIRED_COLUMNS = [''sku'', ''name'', ''category_slug'', ''mrp'', ''selling_price'']"

definition cell :: "row \<Rightarrow> string \<Rightarrow> string" where
  \<comment> \<open>\<open>str(row[column])\<close> for a column of the frame, and \<open>str(row.get(column, ''))\<close>\<close>
  "cell r c = (case r c of None \<Rightarrow> [] | Some v \<Rightarrow> v)"

definition to_decimal :: "('d::{linorder,zero}, 'v, 'c) engine \<Rightarrow> string \<Rightarrow> error + 'd" where
  "to_decimal E v =
     (case decimal_of E (strip v) of
        None \<Rightarrow> Inl (ValueError (''Invalid numeric value '' @ [CHR 0x27] @ v @ [CHR 0x27]))
      | Some number \<Rightarrow>
          if is_nan E number then Inl InvalidOperation
          else if number < 0 then Inl (ValueError ''Numeric values cannot be negative'')
          else Inr number)"

definition missing_column_errors :: "frame \<Rightarrow> validation_error list" where
  "missing_column_errors fr =
     map (\<lambda>c. \<lparr>row_number = 1, message = ''Missing required column '' @ [CHR 0x27] @ c @ [CHR 0x27]\<rparr>)
         (filter (\<lambda>c. c \<notin> set (columns fr)) REQUIRED_COLUMNS)"

definition validate_row ::
  "('d::{linorder,zero}, 'v, 'c) engine \<Rightarrow> nat \<Rightarrow> row \<Rightarrow> error + validation_error list" where
  \<comment> \<open>the body of the row loop of \<open>_validate_frame\<close>: the errors it appends; a
      \<open>ValueError\<close> of \<open>_to_decimal\<close> is caught there, anything else it raises is not\<close>
  "validate_row E n r =
     (let empties = map (\<lambda>c. \<lparr>row_number = n, message = [CHR 0x27] @ c @ [CHR 0x27] @ '' cannot be empty''\<rparr>)
                        (filter (\<lambda>c. strip (cell r c) = []) REQUIRED_COLUMNS)
      in case to_decimal E (cell r ''mrp'') of
           Inl (ValueError m) \<Rightarrow> Inr (empties @ [\<lparr>row_number = n, message = m\<rparr>])
         | Inl e \<Rightarrow> Inl e
         | Inr mrp \<Rightarrow>
             (case to_decimal E (cell r ''selling_price'') of
                Inl (ValueError m) \<Rightarrow> Inr (empties @ [\<lparr>row_number = n, message = m\<rparr>])
              | Inl e \<Rightarrow> Inl e
              | Inr selling_price \<Rightarrow>
                  if selling_price > mrp
                  then Inr (empties @ [\<lparr>row_number = n,
                                         message = ''selling_price cannot be greater than mrp''\<rparr>])
                  else Inr empties))"

fun validate_rows ::
  "('d::{linorder,zero}, 'v, 'c) engine \<Rightarrow> nat \<Rightarrow> row list \<Rightarrow> error + validation_error list" where
  \<comment> \<open>\<open>for index, row in frame.iterrows()\<close>, from \<open>index\<close> on\<close>
  "validate_rows E index [] = Inr []"
| "validate_rows E index (r # rs) =
     bind_result (validate_row E (index + 2) r)
       (\<lambda>es. bind_result (validate_rows E (Suc index) rs) (\<lambda>es'. Inr (es @ es')))"

definition validate_frame ::
  "('d::{linorder,zero}, 'v, 'c) engine \<Rightarrow> frame \<Rightarrow> error + validation_error list" where
  "validate_frame E fr =
     (if missing_column_errors fr \<noteq> [] then Inr (missing_column_errors fr)
      else validate_rows E 0 (frows fr))"

record ('d, 'v) payload =
  p_sku :: string
  p_name :: string
  p_category_slug :: string
  p_description :: "string option"
  p_brand :: "string option"
  p_hsn_code :: "string option"
  p_mrp :: 'd
  p_selling_price :: 'd
  p_currency :: string
  p_images :: "string list"
  p_variants :: "'v list"
  p_attributes :: "(string \<times> string) list"

fun replace_sub :: "string \<Rightarrow> string \<Rightarrow> nat \<Rightarrow> string \<Rightarrow> string" where
  \<comment> \<open>\<open>s.replace(old, new)\<close> for a non-empty \<open>old\<close> is \<open>replace_sub old new 0 s\<close>; the
      counter is the number of characters still inside the last occurrence\<close>
  "replace_sub old new skip [] = []"
| "replace_sub old new skip (c # cs) =
     (if 0 < skip then replace_sub old new (skip - 1) cs
      else if startswith old (c # cs) then new @ replace_sub old new (length old - 1) cs
      else c # replace_sub old new 0 cs)"

definition none_if_empty :: "string \<Rightarrow> string option" where
  \<comment> \<open>\<open>text or None\<close>\<close>
  "none_if_empty t = (if t = [] then None else Some t)"

definition map_row ::
  "('d::{linorder,zero}, 'v, 'c) engine \<Rightarrow> string list \<Rightarrow> row \<Rightarrow> error + ('d, 'v) payload" where
  \<comment> \<open>the second argument is the frame's column list, the order of \<open>row.items()\<close>\<close>
  "map_row E cols r =
     (let images = filter (\<lambda>img. img \<noteq> []) (map strip (split_on (\<lambda>c. c = CHR ''|'') [] (cell r ''images'')));
          variant_cell = strip (cell r ''variants'');
          variants = (if variant_cell \<noteq> [] then variants_of E variant_cell else []);
          attributes = foldl (\<lambda>d key. if startswith ''attr_'' key \<and> strip (cell r key) \<noteq> []
                                       then dict_set d (replace_sub ''attr_'' [] 0 key) (cell r key) else d)
                             [] cols
      in case to_decimal E (cell r ''mrp'') of
           Inl e \<Rightarrow> Inl e
         | Inr mrp \<Rightarrow>
             (case to_decimal E (cell r ''selling_price'') of
                Inl e \<Rightarrow> Inl e
              | Inr selling_price \<Rightarrow>
                  Inr \<lparr>p_sku = strip (cell r ''sku''),
                       p_name = strip (cell r ''name''),
                       p_category_slug = strip (cell r ''category_slug''),
                       p_description = none_if_empty (strip (cell r ''description'')),
                       p_brand = none_if_empty (strip (cell r ''brand'')),
                       p_hsn_code = none_if_empty (strip (cell r ''hsn_code'')),
                       p_mrp = mrp,
                       p_selling_price = selling_price,
                       p_currency = (let c = strip (case r ''currency'' of None \<Rightarrow> ''INR'' | Some v \<Rightarrow> v)
                                     in if c = [] then ''INR'' else c),
                       p_images = images,
                       p_variants = variants,
                       p_attributes = attributes\<rparr>))"

record 'd product_row =
  pr_id :: nat
  pr_category_id :: nat
  pr_name :: string
  pr_description :: "string option"
  pr_brand :: "string option"
  pr_hsn_code :: "string option"
  pr_mrp :: 'd
  pr_selling_price :: 'd
  pr_currency :: string
  pr_primary_image_url :: "string option"
  pr_updated_at :: "nat option"  \<comment> \<open>\<open>None\<close>: whatever the table's default is\<close>

record ('d, 'c) db =
  categories :: "string \<rightharpoonup> nat"  \<comment> \<open>slug to id\<close>
  products :: "string \<rightharpoonup> 'd product_row"  \<comment> \<open>by SKU\<close>
  product_images :: "(nat \<times> string \<times> nat) list"  \<comment> \<open>product id, URL, sort order\<close>
  next_id :: nat
  children :: 'c

definition upsert_product ::
  "('d::{linorder,zero}, 'v, 'c) engine \<Rightarrow> ('d, 'c) db \<Rightarrow> ('d, 'v) payload \<Rightarrow>
     error + (nat \<times> bool) \<times> ('d, 'c) db" where
  "upsert_product E d p =
     (case categories d (p_category_slug p) of
        None \<Rightarrow> Inl (ValueError (''Category slug '' @ [CHR 0x27] @ p_category_slug p @ [CHR 0x27] @
                                  '' does not exist''))
      | Some cid \<Rightarrow>
          (let excluded = \<lparr>pr_id = next_id d, pr_category_id = cid, pr_name = p_name p,
                            pr_description = p_description p, pr_brand = p_brand p,
                            pr_hsn_code = p_hsn_code p, pr_mrp = p_mrp p,
                            pr_selling_price = p_selling_price p, pr_currency = p_currency p,
                            pr_primary_image_url =
                              (if p_images p \<noteq> [] then Some (hd (p_images p)) else None),
                            pr_updated_at = None\<rparr>
           in case products d (p_sku p) of
                None \<Rightarrow>
                  Inr ((next_id d, True),
                       d\<lparr>products := (products d)(p_sku p \<mapsto> excluded), next_id := Suc (next_id d)\<rparr>)
              | Some old \<Rightarrow>
                  Inr ((pr_id old, False),
                       d\<lparr>products := (products d)(p_sku p \<mapsto>
                            excluded\<lparr>pr_id := pr_id old, pr_updated_at := Some (clock E)\<rparr>)\<rparr>)))"

definition replace_product_images :: "('d, 'c) db \<Rightarrow> nat \<Rightarrow> string list \<Rightarrow> ('d, 'c) db" where
  "replace_product_images d product_id images =
     d\<lparr>product_images :=
         filter (\<lambda>(pid, url, k). pid \<noteq> product_id) (product_images d) @
         map (\<lambda>(k, url). (product_id, url, k)) (enumerate 0 images)\<rparr>"

record ('d, 'c) report =
  r_ok :: bool
  r_created :: nat
  r_updated :: nat
  r_skipped :: nat
  r_errors :: "string list"
  r_db :: "('d, 'c) db"

definition persist_row ::
  "('d::{linorder,zero}, 'v, 'c) engine \<Rightarrow> string list \<Rightarrow> row \<Rightarrow> nat \<times> nat \<times> ('d, 'c) db \<Rightarrow>
     error + nat \<times> nat \<times> ('d, 'c) db" where
  \<comment> \<open>the body of the loop of \<open>_persist\<close> on the counters \<open>created\<close>, \<open>updated\<close> and the database\<close>
  "persist_row E cols r st =
     (case st of (n_created, n_updated, d) \<Rightarrow>
      bind_result (map_row E cols r) (\<lambda>product_payload.
      bind_result (upsert_product E d product_payload) (\<lambda>((product_id, is_created), d1).
      (let d2 = replace_product_images d1 product_id (p_images product_payload) in
       bind_result (replace_variants E product_id (p_variants product_payload) (children d2)) (\<lambda>c3.
       bind_result (upsert_attribute_values E product_id (p_attributes product_payload) c3) (\<lambda>c4.
         Inr (if is_created then n_created + 1 else n_created,
              if is_created then n_updated else n_updated + 1,
              d2\<lparr>children := c4\<rparr>)))))))"

fun persist_rows ::
  "('d::{linorder,zero}, 'v, 'c) engine \<Rightarrow> string list \<Rightarrow> row list \<Rightarrow> nat \<times> nat \<times> ('d, 'c) db \<Rightarrow>
     error + nat \<times> nat \<times> ('d, 'c) db" where
  \<comment> \<open>the loop of \<open>_persist\<close>; an exception leaves it, and the connection's \<open>with\<close> block
      then rolls every write of the run back\<close>
  "persist_rows E cols [] st = Inr st"
| "persist_rows E cols (r # rs) st = bind_result (persist_row E cols r st) (persist_rows E cols rs)"

definition persist ::
  "('d::{linorder,zero}, 'v, 'c) engine \<Rightarrow> frame \<Rightarrow> ('d, 'c) db \<Rightarrow> error + ('d, 'c) report" where
  "persist E fr d =
     bind_result (persist_rows E (columns fr) (frows fr) (0, 0, d))
       (\<lambda>(n_created, n_updated, d').
          Inr \<lparr>r_ok = True, r_created = n_created, r_updated = n_updated, r_skipped = 0,
               r_errors = [], r_db = d'\<rparr>)"

definition format_error :: "validation_error \<Rightarrow> string" where
  \<comment> \<open>\<open>f"Row {e.row_number}: {e.message}"\<close>\<close>
  "format_error e = ''Row '' @ str_of_nat (row_number e) @ '': '' @ message e"

definition run ::
  "('d::{linorder,zero}, 'v, 'c) engine \<Rightarrow> frame \<Rightarrow> bool \<Rightarrow> ('d, 'c) db \<Rightarrow> error + ('d, 'c) report" where
  \<comment> \<open>\<open>BulkUploader.run\<close> on the loaded frame; the third argument is \<open>dry_run\<close>\<close>
  "run E fr dry_run d =
     (case validate_frame E fr of
        Inl e \<Rightarrow> Inl e
      | Inr errs \<Rightarrow>
          if errs \<noteq> []
          then Inr \<lparr>r_ok = False, r_created = 0, r_updated = 0, r_skipped = length errs,
                    r_errors = map format_error errs, r_db = d\<rparr>
          else if dry_run
          then Inr \<lparr>r_ok = True, r_created = length (frows fr), r_updated = 0, r_skipped = 0,
                    r_errors = [], r_db = d\<rparr>
          else persist E fr d)"

section \<open>Example inputs\<close>

definition digit_numerics :: "int numerics" where
  \<comment> \<open>numbers for the examples: \<open>float\<close> on texts of decimal digits only, where its value
      is the integer the digits denote, and \<open>int\<close> of such a value\<close>
  "digit_numerics =
     \<lparr>float_of = (\<lambda>s. if isdigit s then Some (int_of_digits s) else None),
      int_of = (\<lambda>x. Some x)\<rparr>"

definition complete_row :: "string \<Rightarrow> row" where
  \<comment> \<open>a data row under the headers \<open>BULK_REQUIRED_ATTRIBUTES\<close> with the given SKU and
      \<open>7\<close> in every other required column\<close>
  "complete_row sku = (map_of (map (\<lambda>h. (h, ''7'')) BULK_REQUIRED_ATTRIBUTES))(''SKU'' \<mapsto> sku)"

definition required_index :: index_map where
  "required_index = header_index_map BULK_REQUIRED_ATTRIBUTES"

definition field_of :: "string \<Rightarrow> error + 'f product \<Rightarrow> 'f pyval option" where
  \<comment> \<open>a field of the mapped product, \<open>None\<close> when the mapper raised or the key is absent\<close>
  "field_of k r = (case r of Inl e \<Rightarrow> None | Inr p \<Rightarrow> map_of p k)"

definition two_sizes_row :: row where
  \<comment> \<open>SKU \<open>A1\<close>, size cell \<open>6,7\<close>, color \<open>Red\<close>, selling price \<open>999\<close>\<close>
  "two_sizes_row =
     (complete_row ''A1'')(''Size'' \<mapsto> ''6,7'', ''Color'' \<mapsto> ''Red'', ''Selling Price'' \<mapsto> ''999'')"

definition image_index :: index_map where
  "image_index = header_index_map (BULK_REQUIRED_ATTRIBUTES @ [''Image''])"

definition nine_images_row :: row where
  "nine_images_row = (complete_row ''A1'')(''Image'' \<mapsto> ''a.jpg,b.jpg,c.jpg,d.jpg,e.jpg,f.jpg,g.jpg,h.jpg,i.jpg'')"

definition nine_urls :: "string list" where
  "nine_urls = map (\<lambda>c. ''/static/images/products/'' @ [c] @ ''.jpg'') ''abcdefghi''"


definition csv_upload :: "string list \<Rightarrow> row list \<Rightarrow> file_storage" where
  \<comment> \<open>an upload named \<open>products.csv\<close> that the CSV reader turns into these headers and rows\<close>
  "csv_upload headers rows =
     \<lparr>filename = ''products.csv'', csv_result = (headers, rows),
      xlsx_content = \<lparr>shared_strings_part = None, sheet1_part = None\<rparr>\<rparr>"

definition summary :: "error + 'f outcome \<Rightarrow> (bool \<times> string list \<times> nat \<times> nat \<times> string list) option" where
  \<comment> \<open>what a run reports, and the SKUs in the catalog after it; \<open>None\<close> when the run raised\<close>
  "summary res =
     (case res of
        Inl e \<Rightarrow> None
      | Inr r \<Rightarrow> Some (ok r, errors r, created r, skipped r, map sku_of (collection r)))"

definition no_mrp_row :: row where
  \<comment> \<open>a data row with the SKU \<open>2\<close> and an empty MRP cell\<close>
  "no_mrp_row = (complete_row ''2'')(''MRP'' \<mapsto> [])"

definition old_catalog :: "int product list" where
  \<comment> \<open>a catalog that holds one product, with the SKU \<open>1\<close>\<close>
  "old_catalog = [[(''sku_id'', PStr ''1''), (''name'', PStr ''Old name'')]]"

definition catalog_after :: "error + 'f outcome \<Rightarrow> 'f product list option" where
  \<comment> \<open>the catalog after a run, \<open>None\<close> when the run raised\<close>
  "catalog_after res = (case res of Inl e \<Rightarrow> None | Inr r \<Rightarrow> Some (collection r))"

definition digit_engine :: "(int, unit, unit) engine" where
  \<comment> \<open>an engine for the examples: \<open>Decimal\<close> on texts of decimal digits only, no variants,
      and writes of variants and attribute values that always succeed\<close>
  "digit_engine =
     \<lparr>decimal_of = (\<lambda>s. if isdigit s then Some (int_of_digits s) else None),
      is_nan = (\<lambda>x. False),
      variants_of = (\<lambda>s. []),
      replace_variants = (\<lambda>i vs c. Inr c),
      upsert_attribute_values = (\<lambda>i as c. Inr c),
      clock = 0\<rparr>"

definition shoe_frame :: frame where
  \<comment> \<open>a frame with the five required columns and one valid row\<close>
  "shoe_frame =
     \<lparr>columns = REQUIRED_COLUMNS,
      frows = [map_of [(''sku'', ''A1''), (''name'', ''Shoe''), (''category_slug'', ''heels''),
                       (''mrp'', ''10''), (''selling_price'', ''9'')]]\<rparr>"

definition shop_db :: "(int, unit) db" where
  \<comment> \<open>a database with the category \<open>heels\<close> and no product\<close>
  "shop_db = \<lparr>categories = [''heels'' \<mapsto> 1], products = Map.empty, product_images = [],
              next_id = 1, children = ()\<rparr>"

definition report_summary ::
  "error + ('d, 'c) report \<Rightarrow> (bool \<times> nat \<times> nat \<times> nat \<times> string list) option" where
  \<comment> \<open>what a run of the relational engine reports, \<open>None\<close> when it raised\<close>
  "report_summary res =
     (case res of
        Inl e \<Rightarrow> None
      | Inr rep \<Rightarrow> Some (r_ok rep, r_created rep, r_updated rep, r_skipped rep, r_errors rep))"



definition headers_without_mrp_color :: "string list" where
  \<comment> \<open>the required headers except MRP and Color\<close>
  "headers_without_mrp_color = remove1 ''MRP'' (remove1 ''Color'' BULK_REQUIRED_ATTRIBUTES)"

definition three_column_frame :: frame where
  \<comment> \<open>a frame without the columns \<open>mrp\<close> and \<open>selling_price\<close>\<close>
  "three_column_frame = \<lparr>columns = [''sku'', ''name'', ''category_slug''], frows = []\<rparr>"

definition shop_db_after :: "(int, unit) db" where
  \<comment> \<open>the database after \<open>shoe_frame\<close> has been ingested once\<close>
  "shop_db_after = r_db (projr (run digit_engine shoe_frame False shop_db))"

definition shoe_payload :: "(int, unit) payload" where
  \<comment> \<open>the payload \<open>_map_row\<close> makes of the row of \<open>shoe_frame\<close>\<close>
  "shoe_payload = projr (map_row digit_engine REQUIRED_COLUMNS (hd (frows shoe_frame)))"












section \<open>Reference definitions\<close>

text \<open>
  Definitions that follow the words of the specification rather than the code; the
  theorems below compare them with the functions above.
\<close>

fun collapse_ws :: "bool \<Rightarrow> string \<Rightarrow> string" where
  \<comment> \<open>every maximal run of whitespace becomes one blank; the flag says that the previous
      character was whitespace\<close>
  "collapse_ws sp [] = []"
| "collapse_ws sp (c # cs) =
     (if is_space c then (if sp then collapse_ws True cs else CHR '' '' # collapse_ws True cs)
      else c # collapse_ws False cs)"

definition last_header_for :: "string list \<Rightarrow> string \<Rightarrow> string option" where
  \<comment> \<open>the last non-empty header of the row that normalizes to the key\<close>
  "last_header_for headers k =
     (case filter (\<lambda>h. h \<noteq> [] \<and> normalize_bulk_header h = k) headers of
        [] \<Rightarrow> None
      | h # hs \<Rightarrow> Some (last (h # hs)))"

definition no_trailing_space :: "string \<Rightarrow> bool" where
  \<comment> \<open>proof notion: the text does not end in whitespace\<close>
  "no_trailing_space s \<longleftrightarrow> s = [] \<or> \<not> is_space (last s)"

definition unbreak :: "char \<Rightarrow> char" where
  \<comment> \<open>proof notion: what the two \<open>replace\<close> calls of \<open>normalize_bulk_header\<close> do to one character\<close>
  "unbreak c = (if c = CHR 0x0D then CHR '' '' else if c = CHR 0x0A then CHR '' '' else c)"

definition dedup_first :: "'a list \<Rightarrow> 'a list" where
  \<comment> \<open>the list without repetitions, every element at the place of its first occurrence
      (\<open>remdups\<close> keeps the last one)\<close>
  "dedup_first xs = rev (remdups (rev xs))"

definition normalized_tokens :: "string list \<Rightarrow> string list" where
  \<comment> \<open>size-normalize every token and drop the empty results\<close>
  "normalized_tokens tokens = filter (\<lambda>s. s \<noteq> []) (map normalize_size_value tokens)"

definition resolved_sizes :: "row \<Rightarrow> index_map \<Rightarrow> string list" where
  \<comment> \<open>size resolution in the words of the specification: the tokens of the primary
      column, then those of every size-like column in header order, first occurrences
      only; the length and width columns only if that gave nothing\<close>
  "resolved_sizes row im =
     (let primary = split_multi_value (get_from_row row im ''Size'' []);
          extra = concat (map (\<lambda>(n, orig, v). size_tokens_of_cell v)
                              (get_non_empty_by_header_match row im is_extra_size_header));
          found = dedup_first (normalized_tokens (primary @ extra))
      in if found \<noteq> [] then found
         else dedup_first (normalized_tokens [get_from_row row im ''Length Size'' [],
                                              get_from_row row im ''Width Size'' []]))"


definition image_keys :: "string list" where
  \<comment> \<open>proof notion: the keys \<open>image_1\<close> to \<open>image_8\<close> that the mapper can write\<close>
  "image_keys = [''image_1'', ''image_2'', ''image_3'', ''image_4'', ''image_5'', ''image_6'',
                 ''image_7'', ''image_8'']"

definition missing_message :: "nat \<Rightarrow> string list \<Rightarrow> string" where
  \<comment> \<open>the error text of a row that misses required values\<close>
  "missing_message k missing = ''Row '' @ str_of_nat k @ '': missing value(s) in '' @ join '', '' missing"

definition duplicate_message :: "nat \<Rightarrow> string \<Rightarrow> string" where
  \<comment> \<open>the error text of a row whose SKU is in the catalog already\<close>
  "duplicate_message k sku =
     ''Row '' @ str_of_nat k @ '': SKU '' @ [CHR 0x22] @ sku @ [CHR 0x22] @ '' already exists''"

definition counted :: "'f outcome \<Rightarrow> 'f outcome \<Rightarrow> nat \<Rightarrow> bool" where
  \<comment> \<open>proof notion: the second state is the first one after \<open>n\<close> more rows\<close>
  "counted st r n \<longleftrightarrow>
     created r + skipped r = created st + skipped st + n \<and>
     length (errors r) + created r = length (errors st) + created st + n \<and>
     length (collection r) + skipped r = length (collection st) + skipped st + n \<and>
     created st \<le> created r \<and> skipped st \<le> skipped r \<and> ok r = ok st \<and>
     take (length (errors st)) (errors r) = errors st \<and>
     take (length (collection st)) (collection r) = collection st"

definition row_sku :: "row \<Rightarrow> index_map \<Rightarrow> string" where
  \<comment> \<open>the SKU the mapper reads from a row\<close>
  "row_sku row im = get_from_row row im ''SKU'' []"

definition row_product :: "'f::zero numerics \<Rightarrow> nat \<Rightarrow> index_map \<Rightarrow> row \<Rightarrow> 'f product" where
  \<comment> \<open>the product the mapper returns for a row, where it returns one\<close>
  "row_product N now im row = projr (build_product_from_bulk_row N now row im)"

definition fresh_rows :: "'f::zero numerics \<Rightarrow> nat \<Rightarrow> index_map \<Rightarrow> 'f product list \<Rightarrow> row list \<Rightarrow> bool" where
  \<comment> \<open>every row has all required values, is mapped without an exception and has a SKU that
      is neither in the catalog nor shared with another of the rows\<close>
  "fresh_rows N now im coll rows \<longleftrightarrow>
     list_all (\<lambda>row. missing_values row im = [] \<and>
                     \<not> isl (build_product_from_bulk_row N now row im) \<and>
                     find_one_sku coll (row_sku row im) = None) rows \<and>
     distinct (map (\<lambda>row. row_sku row im) rows)"

definition overwritten_row ::
  "('d::{linorder,zero}, 'v, 'c) engine \<Rightarrow> nat \<Rightarrow> nat \<Rightarrow> ('d, 'v) payload \<Rightarrow> 'd product_row" where
  \<comment> \<open>what \<open>ON CONFLICT (sku) DO UPDATE\<close> leaves in the row of an existing product\<close>
  "overwritten_row E old_id cid p =
     \<lparr>pr_id = old_id, pr_category_id = cid, pr_name = p_name p,
      pr_description = p_description p, pr_brand = p_brand p, pr_hsn_code = p_hsn_code p,
      pr_mrp = p_mrp p, pr_selling_price = p_selling_price p, pr_currency = p_currency p,
      pr_primary_image_url = (if p_images p \<noteq> [] then Some (hd (p_images p)) else None),
      pr_updated_at = Some (clock E)\<rparr>"








section \<open>Header normalization: proofs\<close>

lemma map_of_dict_set: "map_of (dict_set d k v) = (map_of d)(k \<mapsto> v)"
  by (induction d k v rule: dict_set.induct) (auto simp: fun_eq_iff)

lemma is_space_lower_char [simp]: "is_space (lower_char c) = is_space c"
  unfolding is_space_def lower_char_def
  by (auto split: option.splits if_splits)

lemma split_words_nonempty: "w \<noteq> [] \<or> (\<exists>c\<in>set s. \<not> is_space c) \<Longrightarrow> split_words w s \<noteq> []"
  by (induction s arbitrary: w) auto

lemma join_cons: "xs \<noteq> [] \<Longrightarrow> join sep (x # xs) = x @ sep @ join sep xs"
  by (cases xs) auto

lemma join_split_words:
  "no_trailing_space s \<Longrightarrow>
     (\<forall>w. w \<noteq> [] \<longrightarrow> join '' '' (split_words w s) = w @ collapse_ws False s) \<and>
     join '' '' (split_words [] s) = collapse_ws True s"
proof (induction s)
  case Nil
  then show ?case by simp
next
  case (Cons c cs)
  have nts: "no_trailing_space cs"
    using Cons.prems by (auto simp: no_trailing_space_def split: if_splits)
  note IH = Cons.IH [OF nts]
  show ?case
  proof (cases "is_space c")
    case True
    then have ne: "cs \<noteq> []" and "\<not> is_space (last cs)"
      using Cons.prems by (auto simp: no_trailing_space_def split: if_splits)
    then have "\<exists>c\<in>set cs. \<not> is_space c" using last_in_set by blast
    then have X: "split_words [] cs \<noteq> []" by (simp add: split_words_nonempty)
    show ?thesis using True IH X by (simp add: join_cons)
  next
    case False
    then show ?thesis using IH by simp
  qed
qed

lemma collapse_ws_no_leading: "s = [] \<or> \<not> is_space (hd s) \<Longrightarrow> collapse_ws True s = collapse_ws False s"
  by (cases s) auto

lemma collapse_ws_lower: "collapse_ws b (map lower_char s) = map lower_char (collapse_ws b s)"
proof (induction s arbitrary: b)
  case Nil show ?case by simp
next
  case (Cons c cs)
  have "lower_char CHR '' '' = CHR '' ''" by (simp add: lower_char_def)
  then show ?case using Cons by simp
qed

lemma is_space_unbreak [simp]: "is_space (unbreak c) = is_space c"
  by (auto simp: unbreak_def is_space_def)

lemma unbreak_id: "\<not> is_space c \<Longrightarrow> unbreak c = c"
  by (auto simp: unbreak_def is_space_def)

lemma collapse_ws_unbreak: "collapse_ws b (map unbreak s) = collapse_ws b s"
  by (induction s arbitrary: b) (auto simp: unbreak_id)

lemma replace_twice: "replace_char (CHR 0x0D) CHR '' '' (replace_char (CHR 0x0A) CHR '' '' v) = map unbreak v"
  by (auto simp: replace_char_def unbreak_def)

lemma dropWhile_map_inv: "(\<And>c. P (f c) = P c) \<Longrightarrow> dropWhile P (map f s) = map f (dropWhile P s)"
  by (induction s) auto

lemma strip_where_map:
  assumes "\<And>c. P (f c) = P c"
  shows "strip_where P (map f s) = map f (strip_where P s)"
proof -
  have "dropWhile P (rev (map f (dropWhile P s))) = map f (dropWhile P (rev (dropWhile P s)))"
    using dropWhile_map_inv [of P f "rev (dropWhile P s)"] assms by (simp add: rev_map)
  then show ?thesis
    using dropWhile_map_inv [of P f s] assms by (simp add: strip_where_def rev_map)
qed

lemma strip_where_prefix: "\<exists>ys. dropWhile P s = strip_where P s @ ys"
proof -
  have "rev (dropWhile P s) = takeWhile P (rev (dropWhile P s)) @ dropWhile P (rev (dropWhile P s))"
    by simp
  then have "dropWhile P s = rev (dropWhile P (rev (dropWhile P s))) @ rev (takeWhile P (rev (dropWhile P s)))"
    by (metis rev_append rev_rev_ident)
  then show ?thesis unfolding strip_where_def by blast
qed

lemma strip_where_hd: "strip_where P s \<noteq> [] \<Longrightarrow> \<not> P (hd (strip_where P s))"
proof -
  assume ne: "strip_where P s \<noteq> []"
  obtain ys where eq: "dropWhile P s = strip_where P s @ ys" using strip_where_prefix by blast
  then have "dropWhile P s \<noteq> []" using ne by auto
  then have "\<not> P (hd (dropWhile P s))" by (rule hd_dropWhile)
  then show ?thesis using eq ne by (metis hd_append2)
qed

lemma strip_where_last: "strip_where P s \<noteq> [] \<Longrightarrow> \<not> P (last (strip_where P s))"
  unfolding strip_where_def
  by (metis hd_dropWhile last_rev rev_is_Nil_conv)

lemma normalize_bulk_header_collapse:
  "normalize_bulk_header h = lower (collapse_ws False (strip h))"
proof -
  let ?s = "map lower_char (map unbreak (strip h))"
  have s: "lower (strip (replace_char (CHR 0x0D) CHR '' '' (replace_char (CHR 0x0A) CHR '' '' h))) = ?s"
    by (simp add: replace_twice strip_def strip_where_map lower_def)
  have hd1: "strip h = [] \<or> \<not> is_space (hd (strip h))"
    using strip_where_hd [of is_space h] by (auto simp: strip_def)
  have l1: "strip h = [] \<or> \<not> is_space (last (strip h))"
    using strip_where_last [of is_space h] by (auto simp: strip_def)
  have nts: "no_trailing_space ?s"
    using l1 by (auto simp: no_trailing_space_def last_map)
  have nls: "?s = [] \<or> \<not> is_space (hd ?s)"
    using hd1 by (auto simp: hd_map)
  have "normalize_bulk_header h = join '' '' (split_words [] ?s)"
    unfolding normalize_bulk_header_def by (simp only: s)
  also have "\<dots> = collapse_ws True ?s"
    using join_split_words [OF nts] by simp
  also have "\<dots> = collapse_ws False ?s" using nls by (rule collapse_ws_no_leading)
  also have "\<dots> = map lower_char (collapse_ws False (strip h))"
    by (simp only: collapse_ws_lower collapse_ws_unbreak)
  finally show ?thesis by (simp only: lower_def)
qed

lemma map_of_foldl_dict_set:
  "map_of (foldl (\<lambda>d h. dict_set d (n h) h) d0 hs) k =
     (case filter (\<lambda>h. n h = k) hs of [] \<Rightarrow> map_of d0 k | x # xs \<Rightarrow> Some (last (x # xs)))"
proof (induction hs arbitrary: d0)
  case Nil show ?case by simp
next
  case (Cons h hs)
  show ?case by (simp add: Cons map_of_dict_set split: list.splits)
qed

lemma header_index_map_last:
  "map_of (header_index_map headers) k = last_header_for headers k"
proof -
  have f: "filter (\<lambda>h. normalize_bulk_header h = k) (filter (\<lambda>h. h \<noteq> []) headers) =
           filter (\<lambda>h. h \<noteq> [] \<and> normalize_bulk_header h = k) headers"
    by (simp add: conj_commute)
  show ?thesis
    unfolding header_index_map_def last_header_for_def map_of_foldl_dict_set f
    by (simp split: list.splits)
qed

text \<open>
  Claim C7, as amended. A raw header is normalized by trimming it, turning every run of
  whitespace (line breaks included) into one blank and putting it in lower case; the
  header index maps a normalized key back to original header text, and when several
  non-empty headers of the row normalize to the same key it is the last of them that the
  key maps to.
\<close>

theorem header_normalization_last_wins:
  "normalize_bulk_header h = lower (collapse_ws False (strip h)) \<and>
   map_of (header_index_map headers) k = last_header_for headers k"
  by (simp only: normalize_bulk_header_collapse header_index_map_last)

theorem header_normalization_witness:
  "normalize_bulk_header ('' Heel  Height'' @ [CHR 0x0A] @ ''(IN)  '') = ''heel height (in)'' \<and>
   map_of (header_index_map [''Size'', [], ''SIZE'', ''Color'']) ''size'' = Some ''SIZE''"
proof -
  have e1: "lower (collapse_ws False (strip ('' Heel  Height'' @ [CHR 0x0A] @ ''(IN)  ''))) =
            ''heel height (in)''"
    by code_simp
  have e2: "last_header_for [''Size'', [], ''SIZE'', ''Color''] ''size'' = Some ''SIZE''"
    by code_simp
  show ?thesis
    using header_normalization_last_wins
      [of "'' Heel  Height'' @ [CHR 0x0A] @ ''(IN)  ''" "[''Size'', [], ''SIZE'', ''Color'']" "''size''"]
    by (simp only: e1 e2)
qed

text \<open>
  The claim as it was written has the first occurrence win. With the header row
  \<open>Size, SIZE\<close> both headers have the key \<open>size\<close>, and the key does not map back to the
  first of them.
\<close>

theorem header_first_occurrence_counterexample:
  "normalize_bulk_header ''Size'' = normalize_bulk_header ''SIZE'' \<and>
   map_of (header_index_map [''Size'', ''SIZE'']) (normalize_bulk_header ''Size'') \<noteq> Some ''Size''"
  by code_simp

section \<open>Size resolution: proofs\<close>

lemma dedup_first_Nil [simp]: "dedup_first [] = []"
  by (simp add: dedup_first_def)

lemma remdups_snoc: "remdups (ys @ [x]) = filter (\<lambda>y. y \<noteq> x) (remdups ys) @ [x]"
  by (induction ys) auto

lemma dedup_first_Cons: "dedup_first (x # xs) = x # dedup_first (filter (\<lambda>y. y \<noteq> x) xs)"
proof -
  have "rev (remdups (rev xs @ [x])) = x # rev (filter (\<lambda>y. y \<noteq> x) (remdups (rev xs)))"
    by (simp only: remdups_snoc rev_append rev.simps append_Nil append_Cons)
  also have "filter (\<lambda>y. y \<noteq> x) (remdups (rev xs)) = remdups (rev (filter (\<lambda>y. y \<noteq> x) xs))"
    by (simp only: remdups_filter rev_filter)
  finally show ?thesis by (simp add: dedup_first_def)
qed

lemma distinct_dedup_first [simp]: "distinct (dedup_first xs)"
  by (simp add: dedup_first_def)

lemma set_dedup_first [simp]: "set (dedup_first xs) = set xs"
  by (simp add: dedup_first_def)

lemma add_sizes_Nil [simp]: "add_sizes acc [] = acc"
  by (simp add: add_sizes_def)

lemma add_sizes_Cons:
  "add_sizes acc (t # ts) =
     add_sizes (if normalize_size_value t \<noteq> [] \<and> normalize_size_value t \<notin> set acc
                then acc @ [normalize_size_value t] else acc) ts"
  by (simp add: add_sizes_def Let_def)

lemma add_sizes_append: "add_sizes acc (xs @ ys) = add_sizes (add_sizes acc xs) ys"
  by (simp add: add_sizes_def)

lemma add_sizes_dedup:
  "add_sizes acc tokens = acc @ dedup_first (filter (\<lambda>s. s \<notin> set acc) (normalized_tokens tokens))"
proof (induction tokens arbitrary: acc)
  case Nil
  show ?case by (simp add: normalized_tokens_def)
next
  case (Cons t ts)
  let ?s = "normalize_size_value t"
  show ?case
  proof (cases "?s \<noteq> [] \<and> ?s \<notin> set acc")
    case True
    have f: "filter (\<lambda>y. y \<noteq> ?s) (filter (\<lambda>s. s \<notin> set acc) (normalized_tokens ts)) =
             filter (\<lambda>s. s \<notin> set (acc @ [?s])) (normalized_tokens ts)"
      by (auto intro: filter_cong)
    have "add_sizes acc (t # ts) = add_sizes (acc @ [?s]) ts"
      using True by (simp add: add_sizes_Cons)
    also have "\<dots> = (acc @ [?s]) @ dedup_first (filter (\<lambda>s. s \<notin> set (acc @ [?s])) (normalized_tokens ts))"
      by (rule Cons.IH)
    also have "\<dots> = acc @ ?s # dedup_first (filter (\<lambda>y. y \<noteq> ?s)
                          (filter (\<lambda>s. s \<notin> set acc) (normalized_tokens ts)))"
      by (simp only: f append_assoc append_Cons append_Nil)
    also have "\<dots> = acc @ dedup_first (?s # filter (\<lambda>s. s \<notin> set acc) (normalized_tokens ts))"
      by (simp only: dedup_first_Cons)
    also have "?s # filter (\<lambda>s. s \<notin> set acc) (normalized_tokens ts) =
               filter (\<lambda>s. s \<notin> set acc) (normalized_tokens (t # ts))"
      using True by (simp add: normalized_tokens_def)
    finally show ?thesis .
  next
    case False
    have "add_sizes acc (t # ts) = add_sizes acc ts"
      by (simp only: add_sizes_Cons False if_False)
    also have "\<dots> = acc @ dedup_first (filter (\<lambda>s. s \<notin> set acc) (normalized_tokens ts))"
      by (rule Cons.IH)
    also have "filter (\<lambda>s. s \<notin> set acc) (normalized_tokens ts) =
               filter (\<lambda>s. s \<notin> set acc) (normalized_tokens (t # ts))"
      using False by (cases "?s = []") (simp_all add: normalized_tokens_def)
    finally show ?thesis .
  qed
qed

lemma add_sizes_from_empty: "add_sizes [] tokens = dedup_first (normalized_tokens tokens)"
  by (simp add: add_sizes_dedup)

lemma foldl_add_sizes:
  "foldl (\<lambda>acc (n, orig, v). add_sizes acc (f v)) acc cols =
     add_sizes acc (concat (map (\<lambda>(n, orig, v). f v) cols))"
  by (induction cols arbitrary: acc) (auto simp: add_sizes_append)

lemma extract_variant_sizes_resolved: "extract_variant_sizes row im = resolved_sizes row im"
proof -
  let ?primary = "split_multi_value (get_from_row row im ''Size'' [])"
  let ?extra = "concat (map (\<lambda>(n, orig, v). size_tokens_of_cell v)
                   (get_non_empty_by_header_match row im is_extra_size_header))"
  have two: "foldl (\<lambda>acc (n, orig, v). add_sizes acc (size_tokens_of_cell v))
               (add_sizes [] ?primary) (get_non_empty_by_header_match row im is_extra_size_header) =
             dedup_first (normalized_tokens (?primary @ ?extra))"
  proof -
    have "foldl (\<lambda>acc (n, orig, v). add_sizes acc (size_tokens_of_cell v))
               (add_sizes [] ?primary) (get_non_empty_by_header_match row im is_extra_size_header) =
          add_sizes (add_sizes [] ?primary) ?extra"
      by (rule foldl_add_sizes)
    also have "\<dots> = add_sizes [] (?primary @ ?extra)"
      by (simp only: add_sizes_append)
    finally show ?thesis by (simp only: add_sizes_from_empty)
  qed
  show ?thesis
    unfolding extract_variant_sizes_def resolved_sizes_def Let_def two
    by (simp add: add_sizes_from_empty)
qed

lemma distinct_resolved_sizes: "distinct (resolved_sizes row im)"
  by (simp add: resolved_sizes_def Let_def)

lemma nonempty_normalized: "[] \<notin> set (dedup_first (normalized_tokens xs))"
  by (simp add: normalized_tokens_def)
lemma nonempty_resolved_sizes: "[] \<notin> set (resolved_sizes row im)"
  unfolding resolved_sizes_def Let_def using nonempty_normalized by (simp del: set_dedup_first)

lemma is_digit_not_space: "is_digit c \<Longrightarrow> \<not> is_space c"
  by (auto simp: is_digit_def is_space_def)

lemma strip_id: "s \<noteq> [] \<Longrightarrow> \<not> is_space (hd s) \<Longrightarrow> \<not> is_space (last s) \<Longrightarrow> strip s = s"
proof -
  assume a: "s \<noteq> []" "\<not> is_space (hd s)" "\<not> is_space (last s)"
  then have "dropWhile is_space s = s" by (cases s) auto
  moreover have "dropWhile is_space (rev s) = rev s" using a by (cases "rev s") (auto simp: last_rev hd_rev)
  ultimately show ?thesis by (simp add: strip_def strip_where_def)
qed

lemma split_on_first:
  "list_all (\<lambda>c. \<not> P c) ds \<Longrightarrow> P c \<Longrightarrow> hd (split_on P w (ds @ c # rest)) = w @ ds"
  by (induction ds arbitrary: w) auto

lemma takeWhile_run: "list_all P ds \<Longrightarrow> \<not> P c \<Longrightarrow> takeWhile P (ds @ c # r) = ds"
  by (induction ds) auto

lemma dropWhile_run: "list_all P ds \<Longrightarrow> \<not> P c \<Longrightarrow> dropWhile P (ds @ c # r) = c # r"
  by (induction ds) auto

lemma normalize_float_like:
  assumes "ds \<noteq> []" "list_all is_digit ds" "zs \<noteq> []" "list_all (\<lambda>z. z = CHR ''0'') zs"
  shows "normalize_size_value (ds @ CHR ''.'' # zs) = ds"
proof -
  let ?v = "ds @ CHR ''.'' # zs"
  have z0: "\<not> is_space CHR ''0''" by (simp add: is_space_def)
  have "last ?v = last zs" using assms(3) by simp
  moreover have "last zs = CHR ''0''"
  proof -
    have "last zs \<in> set zs" using assms(3) by simp
    then show ?thesis using assms(4) unfolding list_all_iff by blast
  qed
  ultimately have l: "\<not> is_space (last ?v)" using z0 by simp
  have "is_digit (hd ds)" using assms(1,2) by (cases ds) auto
  then have "\<not> is_space (hd ds)" by (rule is_digit_not_space)
  then have h: "\<not> is_space (hd ?v)" using assms(1) by simp
  have ne: "?v \<noteq> []" by simp
  have s: "strip ?v = ?v" using ne h l by (rule strip_id)
  have nd: "\<not> is_digit CHR ''.''" by (simp add: is_digit_def)
  have tw: "takeWhile is_digit ?v = ds" using assms(2) nd by (rule takeWhile_run)
  have dw: "dropWhile is_digit ?v = CHR ''.'' # zs" using assms(2) nd by (rule dropWhile_run)
  have fz: "is_float_zero ?v" unfolding is_float_zero_def tw dw using assms by simp
  have dd: "list_all (\<lambda>c. \<not> c = CHR ''.'') ds" using assms(2) nd by (auto simp: list_all_iff)
  have hd: "hd (split_on (\<lambda>c. c = CHR ''.'') [] ?v) = ds"
    using split_on_first [of "\<lambda>c. c = CHR ''.''" ds "CHR ''.''" "[]" zs] dd by simp
  show ?thesis unfolding normalize_size_value_def s Let_def using fz hd by simp
qed



lemma is_extra_size_header_literal:
  "is_extra_size_header n \<longleftrightarrow>
     (contains ''size'' n \<or> contains ''variant'' n) \<and>
     n \<notin> {''length size'', ''width size'', ''heel height'', ''heel height (in)''}"
proof -
  have "normalize_bulk_header ''Length Size'' = ''length size''" by code_simp
  moreover have "normalize_bulk_header ''Width Size'' = ''width size''" by code_simp
  moreover have "normalize_bulk_header ''Heel Height'' = ''heel height''" by code_simp
  moreover have "normalize_bulk_header ''Heel Height (in)'' = ''heel height (in)''" by code_simp
  ultimately show ?thesis by (simp add: is_extra_size_header_def)
qed

text \<open>
  Claim C5. The sizes of a row are resolved in three ordered passes: the tokens of the
  primary "Size" column; then, in header order, the tokens of every non-empty column
  whose normalized header contains "size" or "variant" and is not the length, width or
  heel-height column, where a cell with "size:qty" pairs gives the sizes of the pairs and
  any other cell its plain multi-value split; and the Length Size and Width Size cells
  only if nothing was found. Every token is size-normalized, empty results are dropped,
  and a value is kept at its first occurrence only, over all passes. A token of digits,
  a dot and zeros normalizes to its digits.
\<close>

theorem size_resolution_three_passes:
  "extract_variant_sizes row im = resolved_sizes row im \<and>
   distinct (extract_variant_sizes row im) \<and>
   [] \<notin> set (extract_variant_sizes row im) \<and>
   (is_extra_size_header n \<longleftrightarrow>
      (contains ''size'' n \<or> contains ''variant'' n) \<and>
      n \<notin> {''length size'', ''width size'', ''heel height'', ''heel height (in)''}) \<and>
   (ds \<noteq> [] \<and> list_all is_digit ds \<and> zs \<noteq> [] \<and> list_all (\<lambda>z. z = CHR ''0'') zs \<longrightarrow>
      normalize_size_value (ds @ CHR ''.'' # zs) = ds)"
proof (intro conjI impI)
  show "extract_variant_sizes row im = resolved_sizes row im"
    by (rule extract_variant_sizes_resolved)
  show "distinct (extract_variant_sizes row im)"
    by (simp only: extract_variant_sizes_resolved distinct_resolved_sizes)
  show "[] \<notin> set (extract_variant_sizes row im)"
    by (simp only: extract_variant_sizes_resolved nonempty_resolved_sizes not_False_eq_True)
  show "is_extra_size_header n \<longleftrightarrow>
      (contains ''size'' n \<or> contains ''variant'' n) \<and>
      n \<notin> {''length size'', ''width size'', ''heel height'', ''heel height (in)''}"
    by (rule is_extra_size_header_literal)
  assume "ds \<noteq> [] \<and> list_all is_digit ds \<and> zs \<noteq> [] \<and> list_all (\<lambda>z. z = CHR ''0'') zs"
  then show "normalize_size_value (ds @ CHR ''.'' # zs) = ds"
    by (elim conjE) (rule normalize_float_like)
qed

theorem size_resolution_witness:
  "extract_variant_sizes [''Size'' \<mapsto> ''6, 7/8; 9''] (header_index_map [''Size'']) =
     [''6'', ''7'', ''8'', ''9''] \<and>
   extract_variant_sizes
     [''Size'' \<mapsto> ''6, 7'', ''Variant Stock'' \<mapsto> ''6.0:10, 10=3'', ''Sizes'' \<mapsto> ''7|11'',
      ''Length Size'' \<mapsto> ''40'']
     (header_index_map [''Size'', ''Variant Stock'', ''Sizes'', ''Length Size'']) =
     [''6'', ''7'', ''10'', ''11''] \<and>
   extract_variant_sizes [''Length Size'' \<mapsto> ''40.0'', ''Width Size'' \<mapsto> ''3''] 
     (header_index_map [''Size'', ''Length Size'', ''Width Size'']) = [''40'', ''3''] \<and>
   is_extra_size_header ''variant stock'' \<and> \<not> is_extra_size_header ''length size'' \<and>
   normalize_size_value ''6.0'' = ''6''"
proof -
  let ?r1 = "[''Size'' \<mapsto> ''6, 7/8; 9'']"
  let ?r2 = "[''Size'' \<mapsto> ''6, 7'', ''Variant Stock'' \<mapsto> ''6.0:10, 10=3'', ''Sizes'' \<mapsto> ''7|11'',
              ''Length Size'' \<mapsto> ''40'']"
  let ?r3 = "[''Length Size'' \<mapsto> ''40.0'', ''Width Size'' \<mapsto> ''3'']"
  have e1: "resolved_sizes ?r1 (header_index_map [''Size'']) = [''6'', ''7'', ''8'', ''9'']"
    by code_simp
  have e2: "resolved_sizes ?r2 (header_index_map [''Size'', ''Variant Stock'', ''Sizes'', ''Length Size'']) =
            [''6'', ''7'', ''10'', ''11'']"
    by code_simp
  have e3: "resolved_sizes ?r3 (header_index_map [''Size'', ''Length Size'', ''Width Size'']) = [''40'', ''3'']"
    by code_simp
  have e4: "contains ''size'' ''variant stock'' \<or> contains ''variant'' ''variant stock''" by code_simp
  have e5: "''6'' \<noteq> [] \<and> list_all is_digit ''6'' \<and> ''0'' \<noteq> [] \<and> list_all (\<lambda>z. z = CHR ''0'') ''0''"
    by code_simp
  show ?thesis
    using size_resolution_three_passes [of ?r1 "header_index_map [''Size'']" "''variant stock''" "''6''" "''0''"]
      size_resolution_three_passes
        [of ?r2 "header_index_map [''Size'', ''Variant Stock'', ''Sizes'', ''Length Size'']" "''length size''"]
      size_resolution_three_passes [of ?r3 "header_index_map [''Size'', ''Length Size'', ''Width Size'']"]
      e4 e5
    by (simp add: e1 e2 e3)
qed

section \<open>Image references: proofs\<close>

lemma startswith_Nil [simp]: "startswith [] s"
  by (simp add: startswith_def)

lemma startswith_Cons_Nil [simp]: "\<not> startswith (c # p) []"
  by (simp add: startswith_def)

lemma startswith_Cons_Cons [simp]: "startswith (c # p) (d # s) \<longleftrightarrow> c = d \<and> startswith p s"
  by (auto simp: startswith_def)

lemma startswith_in_Nil: "startswith p [] \<longleftrightarrow> p = []"
  by (auto simp: startswith_def)

























section \<open>Record mapper: proofs\<close>

lemma foldl_dict_set_map_of:
  "map_of (foldl (\<lambda>d (k, url). dict_set d k (f url)) d kvs) =
     map_of d ++ map_of (rev (map (\<lambda>(k, url). (k, f url)) kvs))"
proof (induction kvs arbitrary: d)
  case Nil
  show ?case by simp
next
  case (Cons kv kvs)
  obtain k u where kv: "kv = (k, u)" by (cases kv)
  have "map_of (foldl (\<lambda>d (k, url). dict_set d k (f url)) d (kv # kvs)) =
        map_of (dict_set d k (f u)) ++ map_of (rev (map (\<lambda>(k, url). (k, f url)) kvs))"
    by (simp add: kv Cons.IH)
  also have "\<dots> = map_of d ++ map_of (rev (map (\<lambda>(k, url). (k, f url)) (kv # kvs)))"
    by (simp add: kv map_of_dict_set map_add_upd_left fun_eq_iff map_add_def split: option.splits)
  finally show ?case .
qed

lemma str_of_nat_digit: "n < 10 \<Longrightarrow> str_of_nat n = [''0123456789'' ! n]"
  by simp

lemma image_key_nth: "i < 8 \<Longrightarrow> ''image_'' @ str_of_nat (Suc i) = image_keys ! i"
proof -
  have all: "list_all (\<lambda>j. ''image_'' @ str_of_nat (Suc j) = image_keys ! j) [0 ..< 8]"
    by code_simp
  assume "i < 8"
  then have "i \<in> set [0 ..< 8]" by simp
  with all show ?thesis unfolding list_all_iff by blast
qed

lemma distinct_image_keys: "distinct image_keys"
  by (simp add: image_keys_def)

lemma numbered_images_zip: "numbered_images urls = zip (take (length (take 8 urls)) image_keys) (take 8 urls)"
proof (rule nth_equalityI)
  show "length (numbered_images urls) = length (zip (take (length (take 8 urls)) image_keys) (take 8 urls))"
    by (simp add: numbered_images_def image_keys_def)
next
  fix i assume "i < length (numbered_images urls)"
  then have i: "i < length (take 8 urls)" by (simp add: numbered_images_def)
  then have i8: "i < 8" by simp
  have "numbered_images urls ! i = (''image_'' @ str_of_nat (Suc i), take 8 urls ! i)"
    using i by (simp add: numbered_images_def nth_enumerate_eq)
  also have "\<dots> = (image_keys ! i, take 8 urls ! i)" using i8 by (simp only: image_key_nth)
  also have "\<dots> = zip (take (length (take 8 urls)) image_keys) (take 8 urls) ! i"
    using i i8 by (simp add: image_keys_def)
  finally show "numbered_images urls ! i = zip (take (length (take 8 urls)) image_keys) (take 8 urls) ! i" .
qed

lemma length_numbered_images: "length (numbered_images urls) = min 8 (length urls)"
  by (simp add: numbered_images_def min.commute)

lemma numbered_images_nth:
  "i < min 8 (length urls) \<Longrightarrow> numbered_images urls ! i = (image_keys ! i, urls ! i)"
  unfolding numbered_images_zip by (simp add: image_keys_def)

lemma numbered_keys: "fst ` set (numbered_images urls) \<subseteq> set image_keys"
proof
  fix k assume "k \<in> fst ` set (numbered_images urls)"
  then obtain u where "(k, u) \<in> set (numbered_images urls)" by auto
  then obtain i where i: "i < length (numbered_images urls)" "numbered_images urls ! i = (k, u)"
    by (auto simp: in_set_conv_nth)
  then have i8: "i < min 8 (length urls)" by (simp add: length_numbered_images)
  then have "k = image_keys ! i" using i(2) numbered_images_nth [OF i8] by simp
  moreover have "i < length image_keys" using i8 by (simp add: image_keys_def)
  ultimately show "k \<in> set image_keys" by simp
qed

lemma distinct_numbered_keys: "distinct (map fst (numbered_images urls))"
proof -
  have "map fst (numbered_images urls) = take (length (take 8 urls)) image_keys"
    unfolding numbered_images_zip by (simp add: image_keys_def)
  then show ?thesis using distinct_image_keys by simp
qed

lemma map_of_numbered_images:
  assumes "i < min 8 (length urls)"
  shows "map_of (numbered_images urls) (image_keys ! i) = Some (urls ! i)"
proof -
  have "i < length (numbered_images urls)" using assms by (simp add: length_numbered_images)
  then have "(image_keys ! i, urls ! i) \<in> set (numbered_images urls)"
    using numbered_images_nth [OF assms] by (metis nth_mem)
  then show ?thesis using distinct_numbered_keys by (rule map_of_is_SomeI [rotated])
qed


lemma image_keys_not [simp]:
  "''variants'' \<notin> set image_keys" "''images'' \<notin> set image_keys" "''tags'' \<notin> set image_keys"
  "''sizes'' \<notin> set image_keys" "''sku_id'' \<notin> set image_keys"
  by (simp_all add: image_keys_def)

lemma map_of_slots_None:
  "k \<notin> set image_keys \<Longrightarrow> map_of (rev (map (\<lambda>(k, url). (k, f url)) (numbered_images urls))) k = None"
proof -
  assume "k \<notin> set image_keys"
  then have "k \<notin> fst ` set (numbered_images urls)" using numbered_keys by blast
  then have "k \<notin> fst ` set (rev (map (\<lambda>(k, url). (k, f url)) (numbered_images urls)))"
    by (auto simp: image_iff)
  then show ?thesis unfolding map_of_eq_None_iff by blast
qed

lemma map_of_slots_Some:
  assumes "i < min 8 (length urls)"
  shows "map_of (rev (map (\<lambda>(k, url). (k, f url)) (numbered_images urls))) (image_keys ! i) = Some (f (urls ! i))"
proof -
  let ?xs = "map (\<lambda>(k, url). (k, f url)) (numbered_images urls)"
  have fst: "map fst ?xs = map fst (numbered_images urls)" by (simp add: case_prod_unfold comp_def)
  have d: "distinct (map fst ?xs)" using distinct_numbered_keys by (simp only: fst)
  have "i < length (numbered_images urls)" using assms by (simp add: length_numbered_images)
  then have "(image_keys ! i, f (urls ! i)) \<in> set ?xs"
    using numbered_images_nth [OF assms] by (force simp: in_set_conv_nth)
  then have "(image_keys ! i, f (urls ! i)) \<in> set (rev ?xs)" by simp
  moreover have "distinct (map fst (rev ?xs))" using d by (simp add: rev_map [symmetric])
  ultimately show ?thesis by (rule map_of_is_SomeI [rotated])
qed

lemma build_product_returns:
  assumes "parse_int N (get_from_row row im ''Net Quantity'' []) 0 = Inr a"
    and "parse_int N (get_from_row row im ''Net Weight'' []) 0 = Inr b"
  shows "\<exists>p. build_product_from_bulk_row N now row im = Inr p"
  using assms by (simp add: build_product_from_bulk_row_def Let_def split: prod.splits)

lemma product_literal_lookup:
  "map_of (product_literal N now row im sizes urls price mrp qty w) ''sku_id'' =
     Some (PStr (get_from_row row im ''SKU'' []))"
  "map_of (product_literal N now row im sizes urls price mrp qty w) ''sizes'' = Some (PStrs sizes)"
  "map_of (product_literal N now row im sizes urls price mrp qty w) ''image_1'' =
     Some (PStr (if urls \<noteq> [] then hd urls else placeholder_image))"
  "map_of (product_literal N now row im sizes urls price mrp qty w) ''variants'' = None"
  "map_of (product_literal N now row im sizes urls price mrp qty w) ''images'' = None"
  "map_of (product_literal N now row im sizes urls price mrp qty w) ''tags'' = None"
  by (simp_all add: product_literal_def)

lemma build_product_shape:
  assumes "build_product_from_bulk_row N now row im = Inr p"
  shows "\<exists>mrp qty w.
    map_of p =
      (let sizes = extract_variant_sizes row im;
           urls = fst (extract_image_data row im);
           tags = snd (extract_image_data row im);
           price = parse_number N (get_from_row row im ''Selling Price'' []) 0;
           variants = map (\<lambda>s. \<lparr>vsize = s, vcolor = get_from_row row im ''Color'' [], vprice = price\<rparr>) sizes;
           m1 = map_of (product_literal N now row im sizes urls price mrp qty w) ++
                map_of (rev (map (\<lambda>(k, url). (k, PStr url)) (numbered_images urls)));
           m2 = (if urls \<noteq> [] then m1(''images'' \<mapsto> PStrs urls) else m1);
           m3 = (if tags \<noteq> [] then m2(''tags'' \<mapsto> PStrs tags) else m2)
       in if variants \<noteq> [] then m3(''variants'' \<mapsto> PVariants variants) else m3)"
proof -
  obtain urls tags where ex: "extract_image_data row im = (urls, tags)" by (cases "extract_image_data row im")
  obtain a where a: "parse_int N (get_from_row row im ''Net Quantity'' []) 0 = Inr a"
    using assms by (cases "parse_int N (get_from_row row im ''Net Quantity'' []) 0")
      (simp_all add: build_product_from_bulk_row_def Let_def ex)
  obtain b where b: "parse_int N (get_from_row row im ''Net Weight'' []) 0 = Inr b"
    using assms a by (cases "parse_int N (get_from_row row im ''Net Weight'' []) 0")
      (simp_all add: build_product_from_bulk_row_def Let_def ex)
  have "map_of p =
      (let sizes = extract_variant_sizes row im;
           price = parse_number N (get_from_row row im ''Selling Price'' []) 0;
           variants = map (\<lambda>s. \<lparr>vsize = s, vcolor = get_from_row row im ''Color'' [], vprice = price\<rparr>) sizes;
           m1 = map_of (product_literal N now row im sizes urls price
                          (parse_number N (get_from_row row im ''MRP'' []) price) a b) ++
                map_of (rev (map (\<lambda>(k, url). (k, PStr url)) (numbered_images urls)));
           m2 = (if urls \<noteq> [] then m1(''images'' \<mapsto> PStrs urls) else m1);
           m3 = (if tags \<noteq> [] then m2(''tags'' \<mapsto> PStrs tags) else m2)
       in if variants \<noteq> [] then m3(''variants'' \<mapsto> PVariants variants) else m3)"
    using assms
    by (auto simp add: build_product_from_bulk_row_def Let_def ex a b map_of_dict_set
        foldl_dict_set_map_of)
  then show ?thesis unfolding ex fst_conv snd_conv Let_def by blast
qed

lemma build_product_lookup:
  assumes "build_product_from_bulk_row N now row im = Inr p"
  shows "map_of p ''variants'' =
           (if extract_variant_sizes row im = [] then None
            else Some (PVariants (map (\<lambda>s. \<lparr>vsize = s, vcolor = get_from_row row im ''Color'' [],
                                            vprice = parse_number N (get_from_row row im ''Selling Price'' []) 0\<rparr>)
                                       (extract_variant_sizes row im))))"
    and "map_of p ''sizes'' = Some (PStrs (extract_variant_sizes row im))"
    and "map_of p ''sku_id'' = Some (PStr (get_from_row row im ''SKU'' []))"
    and "map_of p ''images'' =
           (if fst (extract_image_data row im) = [] then None
            else Some (PStrs (fst (extract_image_data row im))))"
proof -
  obtain mrp qty w where m: "map_of p =
      (let sizes = extract_variant_sizes row im;
           urls = fst (extract_image_data row im);
           tags = snd (extract_image_data row im);
           price = parse_number N (get_from_row row im ''Selling Price'' []) 0;
           variants = map (\<lambda>s. \<lparr>vsize = s, vcolor = get_from_row row im ''Color'' [], vprice = price\<rparr>) sizes;
           m1 = map_of (product_literal N now row im sizes urls price mrp qty w) ++
                map_of (rev (map (\<lambda>(k, url). (k, PStr url)) (numbered_images urls)));
           m2 = (if urls \<noteq> [] then m1(''images'' \<mapsto> PStrs urls) else m1);
           m3 = (if tags \<noteq> [] then m2(''tags'' \<mapsto> PStrs tags) else m2)
       in if variants \<noteq> [] then m3(''variants'' \<mapsto> PVariants variants) else m3)"
    using build_product_shape [OF assms] by blast
  show "map_of p ''variants'' =
           (if extract_variant_sizes row im = [] then None
            else Some (PVariants (map (\<lambda>s. \<lparr>vsize = s, vcolor = get_from_row row im ''Color'' [],
                                            vprice = parse_number N (get_from_row row im ''Selling Price'' []) 0\<rparr>)
                                       (extract_variant_sizes row im))))"
    by (simp add: m Let_def map_add_def map_of_slots_None product_literal_lookup)
  show "map_of p ''sizes'' = Some (PStrs (extract_variant_sizes row im))"
    by (simp add: m Let_def map_add_def map_of_slots_None product_literal_lookup)
  show "map_of p ''sku_id'' = Some (PStr (get_from_row row im ''SKU'' []))"
    by (simp add: m Let_def map_add_def map_of_slots_None product_literal_lookup)
  show "map_of p ''images'' =
           (if fst (extract_image_data row im) = [] then None
            else Some (PStrs (fst (extract_image_data row im))))"
    by (simp add: m Let_def map_add_def map_of_slots_None product_literal_lookup)
qed

lemma length_image_keys: "length image_keys = 8"
  by (simp add: image_keys_def)

lemma image_key_in_set: "i < 8 \<Longrightarrow> image_keys ! i \<in> set image_keys"
  by (rule nth_mem) (simp only: length_image_keys)

lemma build_product_slots:
  assumes "build_product_from_bulk_row N now row im = Inr p"
    and "i < min 8 (length (fst (extract_image_data row im)))"
  shows "map_of p (''image_'' @ str_of_nat (Suc i)) = Some (PStr (fst (extract_image_data row im) ! i))"
proof -
  let ?urls = "fst (extract_image_data row im)"
  obtain mrp qty w where m: "map_of p =
      (let sizes = extract_variant_sizes row im;
           urls = fst (extract_image_data row im);
           tags = snd (extract_image_data row im);
           price = parse_number N (get_from_row row im ''Selling Price'' []) 0;
           variants = map (\<lambda>s. \<lparr>vsize = s, vcolor = get_from_row row im ''Color'' [], vprice = price\<rparr>) sizes;
           m1 = map_of (product_literal N now row im sizes urls price mrp qty w) ++
                map_of (rev (map (\<lambda>(k, url). (k, PStr url)) (numbered_images urls)));
           m2 = (if urls \<noteq> [] then m1(''images'' \<mapsto> PStrs urls) else m1);
           m3 = (if tags \<noteq> [] then m2(''tags'' \<mapsto> PStrs tags) else m2)
       in if variants \<noteq> [] then m3(''variants'' \<mapsto> PVariants variants) else m3)"
    using build_product_shape [OF assms(1)] by blast
  have i8: "i < 8" using assms(2) by simp
  have k: "''image_'' @ str_of_nat (Suc i) = image_keys ! i" using i8 by (rule image_key_nth)
  have ks: "image_keys ! i \<in> set image_keys" using i8 by (rule image_key_in_set)
  have n1: "image_keys ! i \<noteq> ''images''" using ks image_keys_not(2) by metis
  have n2: "image_keys ! i \<noteq> ''tags''" using ks image_keys_not(3) by metis
  have n3: "image_keys ! i \<noteq> ''variants''" using ks image_keys_not(1) by metis
  have s: "map_of (rev (map (\<lambda>(k, url). (k, PStr url)) (numbered_images ?urls))) (image_keys ! i) =
           Some (PStr (?urls ! i))"
    using assms(2) by (rule map_of_slots_Some)
  have s2: "(m ++ map_of (rev (map (\<lambda>(k, url). (k, PStr url)) (numbered_images ?urls)))) (image_keys ! i) =
           Some (PStr (?urls ! i))" for m
    using s by (rule map_add_find_right)
  have ne: "?urls \<noteq> []" using assms(2) by auto
  show ?thesis unfolding k m Let_def using n1 n2 n3 ne by (simp add: s2)
qed

lemma build_product_thumbnail:
  assumes "build_product_from_bulk_row N now row im = Inr p"
  shows "map_of p ''image_1'' =
           Some (PStr (if fst (extract_image_data row im) \<noteq> [] then hd (fst (extract_image_data row im))
                       else placeholder_image))"
proof (cases "fst (extract_image_data row im) = []")
  case True
  obtain mrp qty w where m: "map_of p =
      (let sizes = extract_variant_sizes row im;
           urls = fst (extract_image_data row im);
           tags = snd (extract_image_data row im);
           price = parse_number N (get_from_row row im ''Selling Price'' []) 0;
           variants = map (\<lambda>s. \<lparr>vsize = s, vcolor = get_from_row row im ''Color'' [], vprice = price\<rparr>) sizes;
           m1 = map_of (product_literal N now row im sizes urls price mrp qty w) ++
                map_of (rev (map (\<lambda>(k, url). (k, PStr url)) (numbered_images urls)));
           m2 = (if urls \<noteq> [] then m1(''images'' \<mapsto> PStrs urls) else m1);
           m3 = (if tags \<noteq> [] then m2(''tags'' \<mapsto> PStrs tags) else m2)
       in if variants \<noteq> [] then m3(''variants'' \<mapsto> PVariants variants) else m3)"
    using build_product_shape [OF assms(1)] by blast
  have "numbered_images [] = []" by (simp add: numbered_images_def)
  then show ?thesis unfolding m Let_def True
    by (simp add: map_add_def product_literal_lookup)
next
  case False
  then have "0 < min 8 (length (fst (extract_image_data row im)))" by simp
  from build_product_slots [OF assms this]
  have "map_of p ''image_1'' = Some (PStr (fst (extract_image_data row im) ! 0))" by simp
  then show ?thesis using False by (simp add: hd_conv_nth)
qed


lemma startswith_image_not:
  "startswith ''image_'' k \<Longrightarrow> k \<noteq> ''images'' \<and> k \<noteq> ''tags'' \<and> k \<noteq> ''variants''"
  by auto

lemma literal_image_field:
  assumes "startswith ''image_'' k"
  shows "(map_of (product_literal N now row im sizes urls price mrp qty w) k \<noteq> None) = (k = ''image_1'')"
proof -
  let ?L = "product_literal N now row im sizes urls price mrp qty w"
  have f: "filter (startswith ''image_'') (map fst ?L) = [''image_1'']"
    by (simp add: product_literal_def Let_def)
  have "(map_of ?L k \<noteq> None) = (k \<in> set (map fst ?L))"
    by (simp add: map_of_eq_None_iff)
  also have "\<dots> = (k \<in> set (filter (startswith ''image_'') (map fst ?L)))"
    using assms by simp
  also have "\<dots> = (k = ''image_1'')"
    unfolding f by simp
  finally show ?thesis .
qed

lemma numbered_keys_eq: "map fst (numbered_images urls) = take (min 8 (length urls)) image_keys"
  unfolding numbered_images_zip by (simp add: image_keys_def min.commute)

lemma slots_domain:
  "(map_of (rev (map (\<lambda>(k, url). (k, f url)) (numbered_images urls))) k \<noteq> None) =
     (k \<in> set (take (min 8 (length urls)) image_keys))"
proof -
  have "fst ` set (rev (map (\<lambda>(k, url). (k, f url)) (numbered_images urls))) =
        set (map fst (numbered_images urls))"
    by (force simp: image_iff)
  then show ?thesis by (simp add: map_of_eq_None_iff numbered_keys_eq)
qed

lemma take_image_keys:
  assumes "m \<le> 8"
  shows "(k \<in> set (take m image_keys)) = (\<exists>i < m. k = ''image_'' @ str_of_nat (Suc i))"
proof
  assume "k \<in> set (take m image_keys)"
  then obtain i where i: "i < length (take m image_keys)" "take m image_keys ! i = k"
    by (auto simp: in_set_conv_nth)
  then have im: "i < m" by simp
  then have i8: "i < 8" using assms by simp
  have "k = image_keys ! i" using i im by simp
  also have "\<dots> = ''image_'' @ str_of_nat (Suc i)" using i8 by (rule image_key_nth [symmetric])
  finally show "\<exists>i < m. k = ''image_'' @ str_of_nat (Suc i)" using im by blast
next
  assume "\<exists>i < m. k = ''image_'' @ str_of_nat (Suc i)"
  then obtain i where i: "i < m" "k = ''image_'' @ str_of_nat (Suc i)" by blast
  have i8: "i < 8" using i(1) assms by simp
  have "k = image_keys ! i" unfolding i(2) using i8 by (rule image_key_nth)
  then have "k = take m image_keys ! i" using i(1) by simp
  moreover have "i < length (take m image_keys)" using i(1) assms by (simp add: length_image_keys)
  ultimately show "k \<in> set (take m image_keys)" by (metis nth_mem)
qed

lemma build_product_image_fields:
  assumes "build_product_from_bulk_row (N :: 'f::zero numerics) now row im = Inr p"
    and "startswith ''image_'' k"
  shows "(map_of p k \<noteq> None) =
           (\<exists>i < max 1 (min 8 (length (fst (extract_image_data row im)))).
              k = ''image_'' @ str_of_nat (Suc i))"
proof -
  let ?urls = "fst (extract_image_data row im)"
  obtain mrp qty w where m: "map_of p =
      (let sizes = extract_variant_sizes row im;
           urls = fst (extract_image_data row im);
           tags = snd (extract_image_data row im);
           price = parse_number N (get_from_row row im ''Selling Price'' []) 0;
           variants = map (\<lambda>s. \<lparr>vsize = s, vcolor = get_from_row row im ''Color'' [], vprice = price\<rparr>) sizes;
           m1 = map_of (product_literal N now row im sizes urls price mrp qty w) ++
                map_of (rev (map (\<lambda>(k, url). (k, PStr url)) (numbered_images urls)));
           m2 = (if urls \<noteq> [] then m1(''images'' \<mapsto> PStrs urls) else m1);
           m3 = (if tags \<noteq> [] then m2(''tags'' \<mapsto> PStrs tags) else m2)
       in if variants \<noteq> [] then m3(''variants'' \<mapsto> PVariants variants) else m3)"
    using build_product_shape [OF assms(1)] by blast
  let ?L = "map_of (product_literal N now row im (extract_variant_sizes row im) ?urls
                     (parse_number N (get_from_row row im ''Selling Price'' []) 0) mrp qty w)"
  let ?S = "map_of (rev (map (\<lambda>(k, url). (k, PStr url :: 'f pyval)) (numbered_images ?urls)))"
  note n = startswith_image_not [OF assms(2)]
  have e: "map_of p k = (?L ++ ?S) k"
    unfolding m Let_def using n by simp
  have "(map_of p k \<noteq> None) = (?L k \<noteq> None \<or> ?S k \<noteq> None)"
    unfolding e map_add_None by auto
  also have "\<dots> = (k = ''image_1'' \<or> k \<in> set (take (min 8 (length ?urls)) image_keys))"
    by (simp only: literal_image_field [OF assms(2)] slots_domain)
  also have "\<dots> = (k \<in> set (take (max 1 (min 8 (length ?urls))) image_keys))"
  proof (cases "?urls = []")
    case True
    then show ?thesis by (simp add: image_keys_def)
  next
    case False
    then have "0 < min 8 (length ?urls)" by simp
    then obtain j where j: "min 8 (length ?urls) = Suc j" by (cases "min 8 (length ?urls)") auto
    have "''image_1'' \<in> set (take (Suc j) image_keys)" by (simp add: image_keys_def)
    then show ?thesis unfolding j by (auto simp: max_def)
  qed
  also have "\<dots> = (\<exists>i < max 1 (min 8 (length ?urls)). k = ''image_'' @ str_of_nat (Suc i))"
    by (rule take_image_keys) simp
  finally show ?thesis .
qed

text \<open>
  Claim C8. Whenever the record mapper returns a product for a row, the product carries
  the resolved sizes, which are pairwise distinct, and exactly one variant per resolved
  size, in the order of the sizes, each with the row's color and the row's selling price;
  with no resolved size the product has no variants. The mapper returns a product
  whenever the conversions of the Net Quantity and Net Weight cells to integers succeed.
\<close>

theorem one_variant_per_size:
  "(build_product_from_bulk_row N now row im = Inr p \<longrightarrow>
      map_of p ''sizes'' = Some (PStrs (extract_variant_sizes row im)) \<and>
      distinct (extract_variant_sizes row im) \<and>
      map_of p ''variants'' =
        (if extract_variant_sizes row im = [] then None
         else Some (PVariants
                (map (\<lambda>s. \<lparr>vsize = s, vcolor = get_from_row row im ''Color'' [],
                            vprice = parse_number N (get_from_row row im ''Selling Price'' []) 0\<rparr>)
                     (extract_variant_sizes row im))))) \<and>
   (parse_int N (get_from_row row im ''Net Quantity'' []) 0 = Inr a \<and>
    parse_int N (get_from_row row im ''Net Weight'' []) 0 = Inr b \<longrightarrow>
      (\<exists>p'. build_product_from_bulk_row N now row im = Inr p'))"
proof (intro conjI impI)
  assume r: "build_product_from_bulk_row N now row im = Inr p"
  show "map_of p ''sizes'' = Some (PStrs (extract_variant_sizes row im))"
    using r by (rule build_product_lookup(2))
  show "distinct (extract_variant_sizes row im)"
    by (simp only: extract_variant_sizes_resolved distinct_resolved_sizes)
  show "map_of p ''variants'' =
        (if extract_variant_sizes row im = [] then None
         else Some (PVariants
                (map (\<lambda>s. \<lparr>vsize = s, vcolor = get_from_row row im ''Color'' [],
                            vprice = parse_number N (get_from_row row im ''Selling Price'' []) 0\<rparr>)
                     (extract_variant_sizes row im))))"
    using r by (rule build_product_lookup(1))
next
  assume "parse_int N (get_from_row row im ''Net Quantity'' []) 0 = Inr a \<and>
          parse_int N (get_from_row row im ''Net Weight'' []) 0 = Inr b"
  then show "\<exists>p'. build_product_from_bulk_row N now row im = Inr p'"
    by (elim conjE) (rule build_product_returns)
qed

theorem one_variant_per_size_witness:
  "field_of ''variants'' (build_product_from_bulk_row digit_numerics 0 two_sizes_row required_index) =
     Some (PVariants [\<lparr>vsize = ''6'', vcolor = ''Red'', vprice = 999\<rparr>,
                      \<lparr>vsize = ''7'', vcolor = ''Red'', vprice = 999\<rparr>])"
proof -
  have e1: "extract_variant_sizes two_sizes_row required_index = [''6'', ''7'']"
    by code_simp
  have e2: "get_from_row two_sizes_row required_index ''Color'' [] = ''Red''"
    by code_simp
  have e3: "parse_number digit_numerics (get_from_row two_sizes_row required_index ''Selling Price'' []) 0 = 999"
    by code_simp
  have e4: "parse_int digit_numerics (get_from_row two_sizes_row required_index ''Net Quantity'' []) 0 = Inr 7"
    by code_simp
  have e5: "parse_int digit_numerics (get_from_row two_sizes_row required_index ''Net Weight'' []) 0 = Inr 7"
    by code_simp
  obtain p where p: "build_product_from_bulk_row digit_numerics 0 two_sizes_row required_index = Inr p"
    using one_variant_per_size [of digit_numerics 0 two_sizes_row required_index _ 7 7] e4 e5 by blast
  have "map_of p ''variants'' =
          Some (PVariants [\<lparr>vsize = ''6'', vcolor = ''Red'', vprice = 999\<rparr>,
                           \<lparr>vsize = ''7'', vcolor = ''Red'', vprice = 999\<rparr>])"
    using one_variant_per_size [of digit_numerics 0 two_sizes_row required_index p] p
    by (simp add: e1 e2 e3)
  then show ?thesis by (simp add: field_of_def p)
qed

text \<open>
  Claim C9, as amended. Whenever the record mapper returns a product: its thumbnail
  \<open>image_1\<close> is the first resolved image reference, or the fixed placeholder when no
  image resolved; the numbered fields \<open>image_1\<close>, \<open>image_2\<close>, ... hold the first resolved
  references in order, and at most 8 of them are written: the product has the field
  \<open>image_1\<close>, the fields \<open>image_2\<close> to \<open>image_n\<close> where \<open>n\<close> is the number of resolved
  references or 8 if there are more, and no other field whose name begins with
  \<open>image_\<close>; the list \<open>images\<close> is present only when an image resolved and then holds
  every resolved reference, with no bound on their number.
\<close>

theorem image_slots_and_list:
  "build_product_from_bulk_row N now row im = Inr p \<longrightarrow>
     map_of p ''image_1'' =
       Some (PStr (if fst (extract_image_data row im) \<noteq> [] then hd (fst (extract_image_data row im))
                   else placeholder_image)) \<and>
     (\<forall>i < min 8 (length (fst (extract_image_data row im))).
        map_of p (''image_'' @ str_of_nat (Suc i)) = Some (PStr (fst (extract_image_data row im) ! i))) \<and>
     length (numbered_images (fst (extract_image_data row im))) =
       min 8 (length (fst (extract_image_data row im))) \<and>
     (\<forall>k. startswith ''image_'' k \<longrightarrow>
        (map_of p k \<noteq> None) =
          (\<exists>i < max 1 (min 8 (length (fst (extract_image_data row im)))).
             k = ''image_'' @ str_of_nat (Suc i))) \<and>
     map_of p ''images'' =
       (if fst (extract_image_data row im) = [] then None
        else Some (PStrs (fst (extract_image_data row im))))"
proof (intro conjI impI allI)
  assume r: "build_product_from_bulk_row N now row im = Inr p"
  show "map_of p ''image_1'' =
       Some (PStr (if fst (extract_image_data row im) \<noteq> [] then hd (fst (extract_image_data row im))
                   else placeholder_image))"
    using r by (rule build_product_thumbnail)
  show "map_of p (''image_'' @ str_of_nat (Suc i)) = Some (PStr (fst (extract_image_data row im) ! i))"
    if "i < min 8 (length (fst (extract_image_data row im)))" for i
    using r that by (rule build_product_slots)
  show "length (numbered_images (fst (extract_image_data row im))) =
       min 8 (length (fst (extract_image_data row im)))"
    by (rule length_numbered_images)
  show "(map_of p k \<noteq> None) =
          (\<exists>i < max 1 (min 8 (length (fst (extract_image_data row im)))).
             k = ''image_'' @ str_of_nat (Suc i))"
    if "startswith ''image_'' k" for k
    using r that by (rule build_product_image_fields)
  show "map_of p ''images'' =
       (if fst (extract_image_data row im) = [] then None
        else Some (PStrs (fst (extract_image_data row im))))"
    using r by (rule build_product_lookup(4))
qed

theorem image_slots_witness:
  "field_of ''image_1'' (build_product_from_bulk_row digit_numerics 0 two_sizes_row required_index) =
     Some (PStr ''https://via.placeholder.com/400x400'') \<and>
   field_of ''images'' (build_product_from_bulk_row digit_numerics 0 two_sizes_row required_index) = None \<and>
   field_of ''image_1'' (build_product_from_bulk_row digit_numerics 0 nine_images_row image_index) =
     Some (PStr ''/static/images/products/a.jpg'') \<and>
   field_of ''image_8'' (build_product_from_bulk_row digit_numerics 0 nine_images_row image_index) =
     Some (PStr ''/static/images/products/h.jpg'') \<and>
   field_of ''image_9'' (build_product_from_bulk_row digit_numerics 0 nine_images_row image_index) = None \<and>
   field_of ''image_2'' (build_product_from_bulk_row digit_numerics 0 two_sizes_row required_index) = None"
proof -
  have u1: "fst (extract_image_data two_sizes_row required_index) = []" by code_simp
  have u2: "fst (extract_image_data nine_images_row image_index) = nine_urls" by code_simp
  have n1: "nine_urls \<noteq> []" by code_simp
  have n2: "hd nine_urls = ''/static/images/products/a.jpg''" by code_simp
  have n3: "nine_urls ! 7 = ''/static/images/products/h.jpg''" by code_simp
  have n4: "7 < min 8 (length nine_urls)" by code_simp
  have n5: "''image_'' @ str_of_nat (Suc 7) = ''image_8''" by code_simp
  have q1: "parse_int digit_numerics (get_from_row two_sizes_row required_index ''Net Quantity'' []) 0 = Inr 7"
    by code_simp
  have w1: "parse_int digit_numerics (get_from_row two_sizes_row required_index ''Net Weight'' []) 0 = Inr 7"
    by code_simp
  have q2: "parse_int digit_numerics (get_from_row nine_images_row image_index ''Net Quantity'' []) 0 = Inr 7"
    by code_simp
  have w2: "parse_int digit_numerics (get_from_row nine_images_row image_index ''Net Weight'' []) 0 = Inr 7"
    by code_simp
  obtain p1 where p1: "build_product_from_bulk_row digit_numerics 0 two_sizes_row required_index = Inr p1"
    using build_product_returns [OF q1 w1] by blast
  obtain p2 where p2: "build_product_from_bulk_row digit_numerics 0 nine_images_row image_index = Inr p2"
    using build_product_returns [OF q2 w2] by blast
  have a: "map_of p1 ''image_1'' = Some (PStr ''https://via.placeholder.com/400x400'') \<and>
           map_of p1 ''images'' = None"
    using image_slots_and_list [of digit_numerics 0 two_sizes_row required_index p1] p1
    by (simp add: u1 placeholder_image_def)
  have b0: "map_of p2 ''image_1'' = Some (PStr (if nine_urls \<noteq> [] then hd nine_urls else placeholder_image)) \<and>
            (\<forall>i < min 8 (length nine_urls).
               map_of p2 (''image_'' @ str_of_nat (Suc i)) = Some (PStr (nine_urls ! i))) \<and>
            (\<forall>k. startswith ''image_'' k \<longrightarrow>
               (map_of p2 k \<noteq> None) =
                 (\<exists>i < max 1 (min 8 (length nine_urls)). k = ''image_'' @ str_of_nat (Suc i)))"
    using image_slots_and_list [of digit_numerics 0 nine_images_row image_index p2] p2
    unfolding u2 by blast
  have a0: "\<forall>k. startswith ''image_'' k \<longrightarrow>
               (map_of p1 k \<noteq> None) =
                 (\<exists>i < max 1 (min 8 (length ([]::string list))). k = ''image_'' @ str_of_nat (Suc i))"
    using image_slots_and_list [of digit_numerics 0 two_sizes_row required_index p1] p1
    unfolding u1 by blast
  have s9: "startswith ''image_'' ''image_9'' \<and> startswith ''image_'' ''image_2''" by code_simp
  have m9: "max 1 (min 8 (length nine_urls)) = 8 \<and> max 1 (min 8 (length ([]::string list))) = 1"
    by code_simp
  have e9: "\<not> list_ex (\<lambda>i. ''image_9'' = ''image_'' @ str_of_nat (Suc i)) [0 ..< 8] \<and>
            \<not> list_ex (\<lambda>i. ''image_2'' = ''image_'' @ str_of_nat (Suc i)) [0 ..< 1]"
    by code_simp
  have b3: "map_of p2 ''image_9'' = None"
  proof -
    have "(map_of p2 ''image_9'' \<noteq> None) = (\<exists>i < 8. ''image_9'' = ''image_'' @ str_of_nat (Suc i))"
      using b0 s9 m9 by metis
    then show ?thesis using e9 by (auto simp: list_ex_iff)
  qed
  have a3: "map_of p1 ''image_2'' = None"
  proof -
    have "(map_of p1 ''image_2'' \<noteq> None) = (\<exists>i < 1. ''image_2'' = ''image_'' @ str_of_nat (Suc i))"
      using a0 s9 m9 by metis
    then show ?thesis using e9 by (auto simp: list_ex_iff)
  qed
  have b1: "map_of p2 ''image_1'' = Some (PStr ''/static/images/products/a.jpg'')"
    using b0 n1 n2 by simp
  have "map_of p2 (''image_'' @ str_of_nat (Suc 7)) = Some (PStr (nine_urls ! 7))"
    using b0 n4 by blast
  then have b2: "map_of p2 ''image_8'' = Some (PStr ''/static/images/products/h.jpg'')"
    unfolding n3 n5 .
  note b = conjI [OF b1 b2]
  show ?thesis using a b b3 a3 by (simp add: field_of_def p1 p2)
qed

text \<open>
  The claim as it was written bounds the image-reference list by 8. A row whose image
  cell names nine files is mapped to a product whose list \<open>images\<close> has nine entries.
\<close>

theorem image_list_longer_than_eight_counterexample:
  "field_of ''images'' (build_product_from_bulk_row digit_numerics 0 nine_images_row image_index) =
     Some (PStrs nine_urls) \<and>
   length nine_urls = 9"
  by code_simp

section \<open>The document-oriented run: proofs\<close>

lemma bind_result_simps [simp]:
  "bind_result (Inl e) f = Inl e"
  "bind_result (Inr x) f = f x"
  by (simp_all add: bind_result_def)

lemma bind_result_Inr_iff:
  "bind_result r f = Inr y \<longleftrightarrow> (\<exists>x. r = Inr x \<and> f x = Inr y)"
  by (cases r) auto

lemma ingest_rows_append:
  "ingest_rows N now im k (rs1 @ rs2) st =
     bind_result (ingest_rows N now im k rs1 st) (ingest_rows N now im (k + length rs1) rs2)"
proof (induction rs1 arbitrary: k st)
  case Nil
  show ?case by simp
next
  case (Cons r rs1)
  show ?case
    by (cases "ingest_row N now im k r st") (simp_all add: Cons.IH)
qed

lemma ingest_row_missing:
  "missing_values row im \<noteq> [] \<Longrightarrow>
     ingest_row N now im k row st =
       Inr (st\<lparr>skipped := skipped st + 1,
               errors := errors st @ [missing_message k (missing_values row im)]\<rparr>)"
  by (simp add: ingest_row_def missing_message_def Let_def)

lemma ingest_row_duplicate:
  "missing_values row im = [] \<Longrightarrow> build_product_from_bulk_row N now row im = Inr p \<Longrightarrow>
   find_one_sku (collection st) (sku_of p) \<noteq> None \<Longrightarrow>
     ingest_row N now im k row st =
       Inr (st\<lparr>skipped := skipped st + 1,
               errors := errors st @ [duplicate_message k (sku_of p)]\<rparr>)"
  by (simp add: ingest_row_def duplicate_message_def Let_def)

lemma ingest_row_created:
  "missing_values row im = [] \<Longrightarrow> build_product_from_bulk_row N now row im = Inr p \<Longrightarrow>
   find_one_sku (collection st) (sku_of p) = None \<Longrightarrow>
     ingest_row N now im k row st =
       Inr (st\<lparr>collection := collection st @ [p], created := created st + 1\<rparr>)"
  by (simp add: ingest_row_def Let_def)

lemma ingest_row_raises:
  "missing_values row im = [] \<Longrightarrow> build_product_from_bulk_row N now row im = Inl e \<Longrightarrow>
     ingest_row N now im k row st = Inl e"
  by (simp add: ingest_row_def Let_def)

lemma ingest_row_cases:
  assumes "ingest_row N now im k row st = Inr st'"
  shows "(missing_values row im \<noteq> [] \<and>
            st' = st\<lparr>skipped := skipped st + 1,
                      errors := errors st @ [missing_message k (missing_values row im)]\<rparr>) \<or>
         (\<exists>p. missing_values row im = [] \<and> build_product_from_bulk_row N now row im = Inr p \<and>
            find_one_sku (collection st) (sku_of p) \<noteq> None \<and>
            st' = st\<lparr>skipped := skipped st + 1,
                      errors := errors st @ [duplicate_message k (sku_of p)]\<rparr>) \<or>
         (\<exists>p. missing_values row im = [] \<and> build_product_from_bulk_row N now row im = Inr p \<and>
            find_one_sku (collection st) (sku_of p) = None \<and>
            st' = st\<lparr>collection := collection st @ [p], created := created st + 1\<rparr>)"
proof (cases "missing_values row im = []")
  case False
  then show ?thesis using assms by (simp add: ingest_row_missing)
next
  case True
  show ?thesis
  proof (cases "build_product_from_bulk_row N now row im")
    case (Inl e)
    then show ?thesis using assms True by (simp add: ingest_row_raises)
  next
    case (Inr p)
    show ?thesis
    proof (cases "find_one_sku (collection st) (sku_of p) = None")
      case None: True
      have "st' = st\<lparr>collection := collection st @ [p], created := created st + 1\<rparr>"
        using assms ingest_row_created [OF \<open>missing_values row im = []\<close> Inr None] by simp
      then show ?thesis using \<open>missing_values row im = []\<close> Inr None by blast
    next
      case False
      have "st' = st\<lparr>skipped := skipped st + 1, errors := errors st @ [duplicate_message k (sku_of p)]\<rparr>"
        using assms ingest_row_duplicate [OF \<open>missing_values row im = []\<close> Inr False] by simp
      then show ?thesis using \<open>missing_values row im = []\<close> Inr False by blast
    qed
  qed
qed

lemma counted_refl: "counted st st 0"
  by (simp add: counted_def)

lemma counted_trans: "counted a b m \<Longrightarrow> counted b c n \<Longrightarrow> counted a c (m + n)"
proof -
  assume ab: "counted a b m" and bc: "counted b c n"
  have le1: "length (errors a) \<le> length (errors b)"
    using ab unfolding counted_def by (metis length_take min.cobounded1 nat_le_linear take_all)
  have le2: "length (collection a) \<le> length (collection b)"
    using ab unfolding counted_def by (metis length_take min.cobounded1 nat_le_linear take_all)
  have e: "take (length (errors a)) (errors c) = errors a"
  proof -
    have "take (length (errors a)) (errors c) = take (length (errors a)) (take (length (errors b)) (errors c))"
      using le1 by (simp add: min_def)
    then show ?thesis using ab bc unfolding counted_def by simp
  qed
  have c: "take (length (collection a)) (collection c) = collection a"
  proof -
    have "take (length (collection a)) (collection c) =
          take (length (collection a)) (take (length (collection b)) (collection c))"
      using le2 by (simp add: min_def)
    then show ?thesis using ab bc unfolding counted_def by simp
  qed
  show ?thesis using ab bc e c unfolding counted_def by simp
qed

lemma ingest_row_counted:
  assumes "ingest_row N now im k row st = Inr st'"
  shows "counted st st' 1"
  using ingest_row_cases [OF assms]
  by (elim disjE exE conjE) (simp_all add: counted_def)

lemma ingest_rows_counted:
  assumes "ingest_rows N now im k rows st = Inr r"
  shows "counted st r (length rows)"
  using assms
proof (induction rows arbitrary: k st)
  case Nil
  then show ?case by (simp add: counted_refl)
next
  case (Cons row rows)
  from Cons.prems obtain st' where s1: "ingest_row N now im k row st = Inr st'"
    and s2: "ingest_rows N now im (Suc k) rows st' = Inr r"
    by (auto simp: bind_result_Inr_iff)
  have "counted st r (1 + length rows)"
    using ingest_row_counted [OF s1] Cons.IH [OF s2] by (rule counted_trans)
  then show ?case by simp
qed

lemma ingest_rows_total:
  assumes "\<forall>row \<in> set rows. missing_values row im = [] \<longrightarrow>
             (\<exists>p. build_product_from_bulk_row N now row im = Inr p)"
  shows "\<exists>r. ingest_rows N now im k rows st = Inr r"
  using assms
proof (induction rows arbitrary: k st)
  case Nil
  show ?case by simp
next
  case (Cons row rows)
  have "\<exists>st'. ingest_row N now im k row st = Inr st'"
  proof (cases "missing_values row im = []")
    case True
    then obtain p where "build_product_from_bulk_row N now row im = Inr p" using Cons.prems by auto
    then show ?thesis using True by (simp add: ingest_row_def Let_def)
  next
    case False
    then show ?thesis by (simp add: ingest_row_missing)
  qed
  then obtain st' where "ingest_row N now im k row st = Inr st'" by blast
  moreover have "\<exists>r. ingest_rows N now im (Suc k) rows st' = Inr r"
    using Cons.prems by (intro Cons.IH) auto
  ultimately show ?case by simp
qed

lemma process_valid:
  assumes "filename fs \<noteq> []" "extension_of (filename fs) \<in> set BULK_ALLOWED_EXTENSIONS"
    and "missing_columns (fst (read_upload fs)) = []"
  shows "process_bulk_upload_file N now (Some fs) coll =
           ingest_rows N now (header_index_map (fst (read_upload fs))) 2 (snd (read_upload fs))
             (start_outcome coll)"
proof -
  obtain headers rows where rd: "read_upload fs = (headers, rows)" by (cases "read_upload fs")
  show ?thesis using assms by (simp add: process_bulk_upload_file_def Let_def rd)
qed

lemma process_missing_columns:
  assumes "filename fs \<noteq> []" "extension_of (filename fs) \<in> set BULK_ALLOWED_EXTENSIONS"
    and "missing_columns (fst (read_upload fs)) \<noteq> []"
  shows "process_bulk_upload_file N now (Some fs) coll =
           Inr (failed_outcome (''Missing required column(s): '' @
                                join '', '' (missing_columns (fst (read_upload fs)))) coll)"
proof -
  obtain headers rows where rd: "read_upload fs = (headers, rows)" by (cases "read_upload fs")
  show ?thesis using assms by (simp add: process_bulk_upload_file_def Let_def rd)
qed

lemma process_ok:
  assumes "process_bulk_upload_file N now (Some fs) coll = Inr r" "ok r"
  shows "filename fs \<noteq> [] \<and> extension_of (filename fs) \<in> set BULK_ALLOWED_EXTENSIONS \<and>
         missing_columns (fst (read_upload fs)) = [] \<and>
         ingest_rows N now (header_index_map (fst (read_upload fs))) 2 (snd (read_upload fs))
           (start_outcome coll) = Inr r"
proof -
  obtain headers rows where rd: "read_upload fs = (headers, rows)" by (cases "read_upload fs")
  show ?thesis using assms
    by (auto simp: process_bulk_upload_file_def Let_def failed_outcome_def rd split: if_splits)
qed

lemma counted_start:
  assumes "counted (start_outcome coll) r n"
  shows "created r + skipped r = n \<and> length (errors r) = skipped r \<and>
         length (collection r) = length coll + created r \<and> ok r"
  using assms by (auto simp: counted_def start_outcome_def)

lemma report_consistency_lemma:
  assumes "process_bulk_upload_file N now (Some fs) coll = Inr r" "ok r"
  shows "created r + skipped r = length (snd (read_upload fs)) \<and> length (errors r) = skipped r \<and>
         length (collection r) = length coll + created r"
proof -
  have "ingest_rows N now (header_index_map (fst (read_upload fs))) 2 (snd (read_upload fs))
           (start_outcome coll) = Inr r"
    using process_ok [OF assms] by blast
  then have "counted (start_outcome coll) r (length (snd (read_upload fs)))"
    by (rule ingest_rows_counted)
  then show ?thesis using counted_start by blast
qed

lemma process_returns:
  assumes "filename fs \<noteq> []" "extension_of (filename fs) \<in> set BULK_ALLOWED_EXTENSIONS"
    and "missing_columns (fst (read_upload fs)) = []"
    and "\<forall>row \<in> set (snd (read_upload fs)).
           missing_values row (header_index_map (fst (read_upload fs))) = [] \<longrightarrow>
           (\<exists>p. build_product_from_bulk_row N now row (header_index_map (fst (read_upload fs))) = Inr p)"
  shows "\<exists>r. process_bulk_upload_file N now (Some fs) coll = Inr r \<and> ok r"
proof -
  obtain r where r: "ingest_rows N now (header_index_map (fst (read_upload fs))) 2 (snd (read_upload fs))
           (start_outcome coll) = Inr r"
    using ingest_rows_total [OF assms(4)] by blast
  then have "counted (start_outcome coll) r (length (snd (read_upload fs)))"
    by (rule ingest_rows_counted)
  then have okr: "ok r" using counted_start by blast
  have "process_bulk_upload_file N now (Some fs) coll = Inr r"
    unfolding process_valid [OF assms(1-3)] by (rule r)
  then show ?thesis using okr by blast
qed

lemma build_product_sku:
  "build_product_from_bulk_row N now row im = Inr p \<Longrightarrow> sku_of p = row_sku row im"
  by (simp add: sku_of_def row_sku_def build_product_lookup(3))

lemma build_product_sku_id:
  "build_product_from_bulk_row N now row im = Inr p \<Longrightarrow> map_of p ''sku_id'' = Some (PStr (row_sku row im))"
  by (simp add: row_sku_def build_product_lookup(3))

lemma find_one_sku_append:
  "find_one_sku (coll @ [p]) s = None \<longleftrightarrow>
     find_one_sku coll s = None \<and> map_of p ''sku_id'' \<noteq> Some (PStr s)"
  by (auto simp: find_one_sku_def find_None_iff)

lemma not_isl_Inr: "\<not> isl x \<Longrightarrow> x = Inr (projr x)"
  by (cases x) auto

lemma ingest_fresh:
  assumes "list_all (\<lambda>row. missing_values row im = [] \<and>
                     \<not> isl (build_product_from_bulk_row N now row im) \<and>
                     find_one_sku (collection st) (row_sku row im) = None) rows"
    and "distinct (map (\<lambda>row. row_sku row im) rows)"
  shows "ingest_rows N now im k rows st =
           Inr (st\<lparr>collection := collection st @ map (row_product N now im) rows,
                   created := created st + length rows\<rparr>)"
  using assms
proof (induction rows arbitrary: k st)
  case Nil
  show ?case by simp
next
  case (Cons row rows)
  let ?p = "row_product N now im row"
  let ?st' = "st\<lparr>collection := collection st @ [?p], created := created st + 1\<rparr>"
  have m: "missing_values row im = []" using Cons.prems(1) by simp
  have b: "build_product_from_bulk_row N now row im = Inr ?p"
    using Cons.prems(1) by (simp add: row_product_def not_isl_Inr)
  have f: "find_one_sku (collection st) (sku_of ?p) = None"
    using Cons.prems(1) by (simp add: build_product_sku [OF b])
  have step: "ingest_row N now im k row st = Inr ?st'"
    using m b f by (rule ingest_row_created)
  have rest: "list_all (\<lambda>row. missing_values row im = [] \<and>
                     \<not> isl (build_product_from_bulk_row N now row im) \<and>
                     find_one_sku (collection ?st') (row_sku row im) = None) rows"
    unfolding list_all_iff
  proof
    fix r assume r: "r \<in> set rows"
    then have "row_sku r im \<noteq> row_sku row im" using Cons.prems(2) by (auto simp: image_iff)
    then have "map_of ?p ''sku_id'' \<noteq> Some (PStr (row_sku r im))"
      by (simp add: build_product_sku_id [OF b])
    then show "missing_values r im = [] \<and> \<not> isl (build_product_from_bulk_row N now r im) \<and>
               find_one_sku (collection ?st') (row_sku r im) = None"
      using Cons.prems(1) r by (simp add: list_all_iff find_one_sku_append)
  qed
  have d: "distinct (map (\<lambda>row. row_sku row im) rows)" using Cons.prems(2) by simp
  have "ingest_rows N now im (Suc k) rows ?st' =
          Inr (?st'\<lparr>collection := collection ?st' @ map (row_product N now im) rows,
                    created := created ?st' + length rows\<rparr>)"
    using rest d by (rule Cons.IH)
  then show ?case by (simp add: step)
qed

lemma find_one_sku_products:
  assumes "find_one_sku coll s = None"
    and "list_all (\<lambda>row. \<not> isl (build_product_from_bulk_row N now row im)) rows"
    and "s \<notin> set (map (\<lambda>row. row_sku row im) rows)"
  shows "find_one_sku (coll @ map (row_product N now im) rows) s = None"
  using assms
proof (induction rows rule: rev_induct)
  case Nil
  then show ?case by simp
next
  case (snoc row rows)
  have b: "build_product_from_bulk_row N now row im = Inr (row_product N now im row)"
    using snoc.prems(2) by (simp add: row_product_def not_isl_Inr)
  have "find_one_sku (coll @ map (row_product N now im) rows) s = None"
    using snoc by simp
  moreover have "map_of (row_product N now im row) ''sku_id'' \<noteq> Some (PStr s)"
    using snoc.prems(3) by (auto simp: build_product_sku_id [OF b])
  ultimately show ?case
    using find_one_sku_append [of "coll @ map (row_product N now im) rows" "row_product N now im row" s]
    by simp
qed

lemma ingest_one_incomplete:
  assumes fr: "fresh_rows N now im coll (rs1 @ rs2)"
    and bad: "missing_values row im \<noteq> []"
  shows "ingest_rows N now im 2 (rs1 @ row # rs2) (start_outcome coll) =
           Inr \<lparr>ok = True, errors = [missing_message (length rs1 + 2) (missing_values row im)],
                created = length rs1 + length rs2, skipped = 1,
                collection = coll @ map (row_product N now im) (rs1 @ rs2)\<rparr>"
proof -
  let ?P = "\<lambda>c row. missing_values row im = [] \<and> \<not> isl (build_product_from_bulk_row N now row im) \<and>
                  find_one_sku c (row_sku row im) = None"
  have a1: "list_all (?P coll) rs1" and a2: "list_all (?P coll) rs2"
    and d1: "distinct (map (\<lambda>row. row_sku row im) rs1)"
    and d2: "distinct (map (\<lambda>row. row_sku row im) rs2)"
    and dj: "set (map (\<lambda>row. row_sku row im) rs1) \<inter> set (map (\<lambda>row. row_sku row im) rs2) = {}"
    using fr by (auto simp: fresh_rows_def)
  let ?st0 = "start_outcome coll"
  let ?st1 = "?st0\<lparr>collection := collection ?st0 @ map (row_product N now im) rs1,
                     created := created ?st0 + length rs1\<rparr>"
  let ?st2 = "?st1\<lparr>skipped := skipped ?st1 + 1,
                     errors := errors ?st1 @ [missing_message (length rs1 + 2) (missing_values row im)]\<rparr>"
  have s1: "ingest_rows N now im 2 rs1 ?st0 = Inr ?st1"
    using a1 d1 by (intro ingest_fresh) (simp_all add: start_outcome_def)
  have s2: "ingest_row N now im (2 + length rs1) row ?st1 = Inr ?st2"
    using bad by (simp add: ingest_row_missing add.commute)
  have a3: "list_all (?P (collection ?st2)) rs2"
    unfolding list_all_iff
  proof
    fix r assume r: "r \<in> set rs2"
    have p: "?P coll r" using a2 r by (simp add: list_all_iff)
    have "row_sku r im \<notin> set (map (\<lambda>row. row_sku row im) rs1)" using dj r by auto
    moreover have "list_all (\<lambda>row. \<not> isl (build_product_from_bulk_row N now row im)) rs1"
      using a1 by (simp add: list_all_iff)
    ultimately have "find_one_sku (coll @ map (row_product N now im) rs1) (row_sku r im) = None"
      using p by (intro find_one_sku_products) simp_all
    then show "?P (collection ?st2) r" using p by (simp add: start_outcome_def)
  qed
  have s3: "ingest_rows N now im (Suc (2 + length rs1)) rs2 ?st2 =
              Inr (?st2\<lparr>collection := collection ?st2 @ map (row_product N now im) rs2,
                        created := created ?st2 + length rs2\<rparr>)"
    using a3 d2 by (rule ingest_fresh)
  have "ingest_rows N now im 2 (rs1 @ row # rs2) ?st0 =
          bind_result (ingest_rows N now im 2 rs1 ?st0) (ingest_rows N now im (2 + length rs1) (row # rs2))"
    by (rule ingest_rows_append)
  also have "\<dots> = ingest_rows N now im (2 + length rs1) (row # rs2) ?st1"
    by (simp only: s1 bind_result_simps)
  also have "\<dots> = bind_result (ingest_row N now im (2 + length rs1) row ?st1)
                       (ingest_rows N now im (Suc (2 + length rs1)) rs2)"
    by (simp only: ingest_rows.simps)
  also have "\<dots> = Inr (?st2\<lparr>collection := collection ?st2 @ map (row_product N now im) rs2,
                              created := created ?st2 + length rs2\<rparr>)"
    by (simp only: s2 bind_result_simps s3)
  also have "?st2\<lparr>collection := collection ?st2 @ map (row_product N now im) rs2,
                   created := created ?st2 + length rs2\<rparr> =
             \<lparr>ok = True, errors = [missing_message (length rs1 + 2) (missing_values row im)],
              created = length rs1 + length rs2, skipped = 1,
              collection = coll @ map (row_product N now im) (rs1 @ rs2)\<rparr>"
    by (simp add: start_outcome_def)
  finally show ?thesis .
qed

lemma startswith_contains: "startswith sub s \<Longrightarrow> contains sub s"
  by (cases s) (simp_all add: startswith_in_Nil)

lemma contains_here: "contains sub (sub @ b)"
  by (rule startswith_contains) (simp add: startswith_def)

lemma contains_append: "contains sub (a @ sub @ b)"
  by (induction a) (auto simp: contains_here)

lemma join_has: "x \<in> set xs \<Longrightarrow> \<exists>a b. join sep xs = a @ x @ b"
proof (induction sep xs rule: join.induct)
  case (1 sep)
  then show ?case by simp
next
  case (2 sep y)
  then have "join sep [y] = [] @ x @ []" by simp
  then show ?case by blast
next
  case (3 sep y z zs)
  show ?case
  proof (cases "x = y")
    case True
    then have "join sep (y # z # zs) = [] @ x @ (sep @ join sep (z # zs))" by simp
    then show ?thesis by blast
  next
    case False
    then have "x \<in> set (z # zs)" using 3 by auto
    then obtain a b where "join sep (z # zs) = a @ x @ b" using 3 by blast
    then have "join sep (y # z # zs) = (y @ sep @ a) @ x @ b" by simp
    then show ?thesis by blast
  qed
qed

lemma contains_join: "x \<in> set xs \<Longrightarrow> contains x (p @ join sep xs)"
proof -
  assume "x \<in> set xs"
  then obtain a b where "join sep xs = a @ x @ b" using join_has by blast
  then have "p @ join sep xs = (p @ a) @ x @ b" by simp
  then show ?thesis using contains_append by metis
qed


lemma find_one_sku_mono:
  assumes "find_one_sku coll s \<noteq> None" "take (length coll) coll' = coll"
  shows "find_one_sku coll' s \<noteq> None"
proof -
  obtain d where d: "d \<in> set coll" "map_of d ''sku_id'' = Some (PStr s)"
    using assms(1) by (auto simp: find_one_sku_def find_None_iff)
  have "set coll \<subseteq> set coll'" using assms(2) by (metis set_take_subset)
  then have "d \<in> set coll'" using d(1) by blast
  then show ?thesis using d(2) by (auto simp: find_one_sku_def find_None_iff)
qed

lemma find_one_sku_own:
  assumes "build_product_from_bulk_row N now row im = Inr p"
  shows "find_one_sku (coll @ [p]) (sku_of p) \<noteq> None"
  using build_product_sku_id [OF assms] build_product_sku [OF assms]
  by (auto simp: find_one_sku_def find_None_iff)

lemma ingest_row_present:
  assumes "ingest_row N now im k row st = Inr st'" "missing_values row im = []"
    and "build_product_from_bulk_row N now row im = Inr p"
  shows "find_one_sku (collection st') (sku_of p) \<noteq> None"
  using ingest_row_cases [OF assms(1)] assms(2,3) find_one_sku_own [OF assms(3)]
  by (elim disjE exE conjE) simp_all

lemma ingest_rows_present:
  assumes "ingest_rows N now im k rows st = Inr r" "row \<in> set rows" "missing_values row im = []"
    and "build_product_from_bulk_row N now row im = Inr p"
  shows "find_one_sku (collection r) (sku_of p) \<noteq> None"
  using assms(1,2)
proof (induction rows arbitrary: k st)
  case Nil
  then show ?case by simp
next
  case (Cons a rows)
  from Cons.prems(1) obtain st' where s1: "ingest_row N now im k a st = Inr st'"
    and s2: "ingest_rows N now im (Suc k) rows st' = Inr r"
    by (auto simp: bind_result_Inr_iff)
  show ?case
  proof (cases "row \<in> set rows")
    case True
    then show ?thesis using Cons.IH [OF s2] by simp
  next
    case False
    then have "row = a" using Cons.prems(2) by simp
    then have "find_one_sku (collection st') (sku_of p) \<noteq> None"
      using ingest_row_present [OF s1] assms(3,4) by simp
    moreover have "take (length (collection st')) (collection r) = collection st'"
      using ingest_rows_counted [OF s2] by (simp add: counted_def)
    ultimately show ?thesis by (rule find_one_sku_mono)
  qed
qed

lemma ingest_rows_builds:
  assumes "ingest_rows N now im k rows st = Inr r" "row \<in> set rows" "missing_values row im = []"
  shows "\<exists>p. build_product_from_bulk_row N now row im = Inr p"
  using assms(1,2)
proof (induction rows arbitrary: k st)
  case Nil
  then show ?case by simp
next
  case (Cons a rows)
  from Cons.prems(1) obtain st' where s1: "ingest_row N now im k a st = Inr st'"
    and s2: "ingest_rows N now im (Suc k) rows st' = Inr r"
    by (auto simp: bind_result_Inr_iff)
  show ?case
  proof (cases "row = a")
    case True
    show ?thesis
    proof (cases "build_product_from_bulk_row N now row im")
      case (Inl e)
      then have "ingest_row N now im k a st = Inl e"
        using True assms(3) by (simp add: ingest_row_raises)
      then show ?thesis using s1 by simp
    next
      case (Inr p)
      then show ?thesis by blast
    qed
  next
    case False
    then have "row \<in> set rows" using Cons.prems(2) by simp
    then show ?thesis using Cons.IH [OF s2] by blast
  qed
qed

lemma ingest_rows_all_present:
  assumes "\<forall>row \<in> set rows. missing_values row im = [] \<longrightarrow>
             (\<exists>p. build_product_from_bulk_row N now row im = Inr p \<and>
                  find_one_sku (collection st) (sku_of p) \<noteq> None)"
  shows "\<exists>es. ingest_rows N now im k rows st =
               Inr (st\<lparr>skipped := skipped st + length rows, errors := errors st @ es\<rparr>)"
  using assms
proof (induction rows arbitrary: k st)
  case Nil
  have "ingest_rows N now im k [] st = Inr (st\<lparr>skipped := skipped st + length ([]::row list),
                                                errors := errors st @ []\<rparr>)"
    by simp
  then show ?case by blast
next
  case (Cons a rows)
  have "\<exists>e. ingest_row N now im k a st = Inr (st\<lparr>skipped := skipped st + 1, errors := errors st @ [e]\<rparr>)"
  proof (cases "missing_values a im = []")
    case True
    then obtain p where "build_product_from_bulk_row N now a im = Inr p"
      "find_one_sku (collection st) (sku_of p) \<noteq> None"
      using Cons.prems by auto
    then show ?thesis using ingest_row_duplicate [OF True] by blast
  next
    case False
    then show ?thesis using ingest_row_missing by blast
  qed
  then obtain e where s1: "ingest_row N now im k a st =
      Inr (st\<lparr>skipped := skipped st + 1, errors := errors st @ [e]\<rparr>)" by blast
  let ?st' = "st\<lparr>skipped := skipped st + 1, errors := errors st @ [e]\<rparr>"
  have "\<forall>row \<in> set rows. missing_values row im = [] \<longrightarrow>
             (\<exists>p. build_product_from_bulk_row N now row im = Inr p \<and>
                  find_one_sku (collection ?st') (sku_of p) \<noteq> None)"
    using Cons.prems by simp
  from Cons.IH [OF this]
  obtain es where s2: "ingest_rows N now im (Suc k) rows ?st' =
      Inr (?st'\<lparr>skipped := skipped ?st' + length rows, errors := errors ?st' @ es\<rparr>)" by blast
  have "ingest_rows N now im k (a # rows) st =
          Inr (?st'\<lparr>skipped := skipped ?st' + length rows, errors := errors ?st' @ es\<rparr>)"
    by (simp only: ingest_rows.simps s1 bind_result_simps s2)
  also have "?st'\<lparr>skipped := skipped ?st' + length rows, errors := errors ?st' @ es\<rparr> =
             st\<lparr>skipped := skipped st + length (a # rows), errors := errors st @ (e # es)\<rparr>"
    by simp
  finally show ?case by blast
qed

lemma reingest_creates_nothing:
  assumes r1: "process_bulk_upload_file N now (Some fs) coll = Inr r1" "ok r1"
  shows "\<exists>es. process_bulk_upload_file N now (Some fs) (collection r1) =
           Inr \<lparr>ok = True, errors = es, created = 0, skipped = length (snd (read_upload fs)),
                collection = collection r1\<rparr>"
proof -
  let ?im = "header_index_map (fst (read_upload fs))"
  let ?rows = "snd (read_upload fs)"
  note v = process_ok [OF r1]
  have run1: "ingest_rows N now ?im 2 ?rows (start_outcome coll) = Inr r1" using v by blast
  have pres: "\<forall>row \<in> set ?rows. missing_values row ?im = [] \<longrightarrow>
             (\<exists>p. build_product_from_bulk_row N now row ?im = Inr p \<and>
                  find_one_sku (collection (start_outcome (collection r1))) (sku_of p) \<noteq> None)"
  proof (intro ballI impI)
    fix row assume row: "row \<in> set ?rows" and m: "missing_values row ?im = []"
    obtain p where p: "build_product_from_bulk_row N now row ?im = Inr p"
      using ingest_rows_builds [OF run1 row m] by blast
    have "find_one_sku (collection r1) (sku_of p) \<noteq> None"
      using run1 row m p by (rule ingest_rows_present)
    then show "\<exists>p. build_product_from_bulk_row N now row ?im = Inr p \<and>
                  find_one_sku (collection (start_outcome (collection r1))) (sku_of p) \<noteq> None"
      using p by (simp add: start_outcome_def)
  qed
  from ingest_rows_all_present [OF pres, of 2]
  obtain es where "ingest_rows N now ?im 2 ?rows (start_outcome (collection r1)) =
      Inr ((start_outcome (collection r1))\<lparr>skipped := skipped (start_outcome (collection r1)) + length ?rows,
            errors := errors (start_outcome (collection r1)) @ es\<rparr>)" by blast
  then have "process_bulk_upload_file N now (Some fs) (collection r1) =
      Inr \<lparr>ok = True, errors = es, created = 0, skipped = length ?rows, collection = collection r1\<rparr>"
    using v by (simp add: process_valid start_outcome_def)
  then show ?thesis by blast
qed









section \<open>The relational engine: proofs\<close>

lemma validate_frame_missing_columns:
  "missing_column_errors fr \<noteq> [] \<Longrightarrow> validate_frame E fr = Inr (missing_column_errors fr)"
  by (simp add: validate_frame_def)

lemma run_rejects:
  "validate_frame E fr = Inr errs \<Longrightarrow> errs \<noteq> [] \<Longrightarrow>
     run E fr dry_run d =
       Inr \<lparr>r_ok = False, r_created = 0, r_updated = 0, r_skipped = length errs,
            r_errors = map format_error errs, r_db = d\<rparr>"
  by (simp add: run_def)




lemma upsert_existing:
  assumes "categories d (p_category_slug p) = Some cid" "products d (p_sku p) = Some old"
  shows "upsert_product E d p =
           Inr ((pr_id old, False),
                d\<lparr>products := (products d)(p_sku p \<mapsto> overwritten_row E (pr_id old) cid p)\<rparr>)"
  using assms by (simp add: upsert_product_def overwritten_row_def Let_def)

lemma upsert_result:
  assumes "upsert_product E d p = Inr ((i, c), d')"
  shows "c = (products d (p_sku p) = None) \<and>
         dom (products d') = insert (p_sku p) (dom (products d)) \<and>
         categories d' = categories d"
  using assms
  by (auto simp: upsert_product_def Let_def split: option.splits)

lemma persist_row_result:
  assumes "persist_row E cols r (nc, nu, d) = Inr (nc', nu', d')"
  shows "\<exists>p. map_row E cols r = Inr p \<and> categories d' = categories d \<and>
             dom (products d') = insert (p_sku p) (dom (products d)) \<and>
             nc' = (if products d (p_sku p) = None then nc + 1 else nc) \<and>
             nu' = (if products d (p_sku p) = None then nu else nu + 1)"
proof -
  from assms obtain p where p: "map_row E cols r = Inr p"
    by (cases "map_row E cols r") (simp_all add: persist_row_def)
  from assms p obtain i c d1 where u: "upsert_product E d p = Inr ((i, c), d1)"
    by (cases "upsert_product E d p") (auto simp: persist_row_def)
  let ?d2 = "replace_product_images d1 i (p_images p)"
  from assms p u obtain c3 where c3: "replace_variants E i (p_variants p) (children ?d2) = Inr c3"
    by (cases "replace_variants E i (p_variants p) (children ?d2)") (auto simp: persist_row_def Let_def)
  from assms p u c3 obtain c4 where c4: "upsert_attribute_values E i (p_attributes p) c3 = Inr c4"
    by (cases "upsert_attribute_values E i (p_attributes p) c3") (auto simp: persist_row_def Let_def)
  have res: "nc' = (if c then nc + 1 else nc)" "nu' = (if c then nu else nu + 1)"
    "d' = ?d2\<lparr>children := c4\<rparr>"
    using assms p u c3 c4 by (simp_all add: persist_row_def Let_def)
  have "products d' = products d1" "categories d' = categories d1"
    using res(3) by (simp_all add: replace_product_images_def)
  then show ?thesis using upsert_result [OF u] res(1,2) p by auto
qed

lemma persist_rows_grow:
  assumes "persist_rows E cols rs (nc, nu, d) = Inr (nc', nu', d')"
  shows "categories d' = categories d \<and> dom (products d) \<subseteq> dom (products d') \<and>
         (\<forall>r \<in> set rs. \<forall>p. map_row E cols r = Inr p \<longrightarrow> p_sku p \<in> dom (products d'))"
  using assms
proof (induction rs arbitrary: nc nu d)
  case Nil
  then show ?case by simp
next
  case (Cons r rs)
  from Cons.prems obtain st where s1: "persist_row E cols r (nc, nu, d) = Inr st"
    and s2: "persist_rows E cols rs st = Inr (nc', nu', d')"
    by (auto simp: bind_result_Inr_iff)
  obtain a b d1 where st: "st = (a, b, d1)" by (cases st)
  from persist_row_result [OF s1 [unfolded st]]
  obtain p where p: "map_row E cols r = Inr p" "categories d1 = categories d"
    "dom (products d1) = insert (p_sku p) (dom (products d))" by blast
  note ih = Cons.IH [OF s2 [unfolded st]]
  show ?case using ih p by auto
qed

lemma persist_rows_present:
  assumes "\<forall>r \<in> set rs. \<forall>p. map_row E cols r = Inr p \<longrightarrow> p_sku p \<in> dom (products d)"
    and "persist_rows E cols rs (nc, nu, d) = Inr (nc', nu', d')"
  shows "nc' = nc \<and> nu' = nu + length rs \<and> dom (products d') = dom (products d)"
  using assms
proof (induction rs arbitrary: nc nu d)
  case Nil
  then show ?case by simp
next
  case (Cons r rs)
  from Cons.prems(2) obtain st where s1: "persist_row E cols r (nc, nu, d) = Inr st"
    and s2: "persist_rows E cols rs st = Inr (nc', nu', d')"
    by (auto simp: bind_result_Inr_iff)
  obtain a b d1 where st: "st = (a, b, d1)" by (cases st)
  from persist_row_result [OF s1 [unfolded st]]
  obtain p where p: "map_row E cols r = Inr p"
    "dom (products d1) = insert (p_sku p) (dom (products d))"
    "a = (if products d (p_sku p) = None then nc + 1 else nc)"
    "b = (if products d (p_sku p) = None then nu else nu + 1)" by blast
  have in_d: "p_sku p \<in> dom (products d)" using Cons.prems(1) p(1) by simp
  then have ab: "a = nc" "b = nu + 1" "dom (products d1) = dom (products d)"
    using p by auto
  have "\<forall>r \<in> set rs. \<forall>p. map_row E cols r = Inr p \<longrightarrow> p_sku p \<in> dom (products d1)"
    using Cons.prems(1) ab(3) by simp
  from Cons.IH [OF this s2 [unfolded st]] show ?case using ab by simp
qed

lemma run_ok:
  assumes "run E fr False d = Inr rep" "r_ok rep"
  shows "validate_frame E fr = Inr [] \<and> persist E fr d = Inr rep"
  using assms
  by (cases "validate_frame E fr") (auto simp: run_def split: if_splits)

lemma persist_Inr:
  assumes "persist E fr d = Inr rep"
  shows "\<exists>nc nu d'. persist_rows E (columns fr) (frows fr) (0, 0, d) = Inr (nc, nu, d') \<and>
           rep = \<lparr>r_ok = True, r_created = nc, r_updated = nu, r_skipped = 0, r_errors = [], r_db = d'\<rparr>"
  using assms
  by (cases "persist_rows E (columns fr) (frows fr) (0, 0, d)") (auto simp: persist_def)

lemma rerun_updates:
  assumes "run E fr False d = Inr rep1" "r_ok rep1"
    and "run E fr False (r_db rep1) = Inr rep2"
  shows "r_ok rep2 \<and> r_created rep2 = 0 \<and> r_updated rep2 = length (frows fr) \<and>
         dom (products (r_db rep2)) = dom (products (r_db rep1))"
proof -
  have v: "validate_frame E fr = Inr []" and p1: "persist E fr d = Inr rep1"
    using run_ok [OF assms(1,2)] by blast+
  have p2: "persist E fr (r_db rep1) = Inr rep2" using assms(3) v by (simp add: run_def)
  obtain nc nu d1 where a: "persist_rows E (columns fr) (frows fr) (0, 0, d) = Inr (nc, nu, d1)"
    and r1: "r_db rep1 = d1"
    using persist_Inr [OF p1] by auto
  obtain nc' nu' d2 where b: "persist_rows E (columns fr) (frows fr) (0, 0, d1) = Inr (nc', nu', d2)"
    and r2: "rep2 = \<lparr>r_ok = True, r_created = nc', r_updated = nu', r_skipped = 0, r_errors = [], r_db = d2\<rparr>"
    using persist_Inr [OF p2] r1 by auto
  have "\<forall>r \<in> set (frows fr). \<forall>p. map_row E (columns fr) r = Inr p \<longrightarrow> p_sku p \<in> dom (products d1)"
    using persist_rows_grow [OF a] by blast
  from persist_rows_present [OF this b] show ?thesis using r1 r2 by simp
qed

lemma format_missing_column:
  "map format_error (missing_column_errors fr) =
     map (\<lambda>c. ''Row 1: Missing required column '' @ [CHR 0x27] @ c @ [CHR 0x27])
         (filter (\<lambda>c. c \<notin> set (columns fr)) REQUIRED_COLUMNS)"
  by (simp add: missing_column_errors_def format_error_def comp_def)

lemma run_missing_columns:
  assumes "missing_column_errors fr \<noteq> []"
  shows "run E fr dry_run d =
           Inr \<lparr>r_ok = False, r_created = 0, r_updated = 0,
                r_skipped = length (filter (\<lambda>c. c \<notin> set (columns fr)) REQUIRED_COLUMNS),
                r_errors = map (\<lambda>c. ''Row 1: Missing required column '' @ [CHR 0x27] @ c @ [CHR 0x27])
                               (filter (\<lambda>c. c \<notin> set (columns fr)) REQUIRED_COLUMNS),
                r_db = d\<rparr>"
proof -
  have "run E fr dry_run d =
          Inr \<lparr>r_ok = False, r_created = 0, r_updated = 0, r_skipped = length (missing_column_errors fr),
               r_errors = map format_error (missing_column_errors fr), r_db = d\<rparr>"
    using validate_frame_missing_columns [OF assms] assms by (rule run_rejects)
  then show ?thesis
    unfolding format_missing_column by (simp add: missing_column_errors_def)
qed


section \<open>The example inputs, evaluated\<close>

lemma required_columns_present: "missing_columns BULK_REQUIRED_ATTRIBUTES = []"
  by code_simp

lemma complete_row_values: "missing_values (complete_row ''1'') required_index = []"
  by code_simp

lemma no_mrp_row_values: "missing_values no_mrp_row required_index = [''MRP'']"
  by code_simp

lemma complete_row_maps:
  "\<not> isl (build_product_from_bulk_row digit_numerics 0 (complete_row ''1'') required_index)"
  by code_simp

lemma complete_row_sku: "row_sku (complete_row ''1'') required_index = ''1''"
  by code_simp

lemma csv_extension: "extension_of ''products.csv'' = ''csv''"
  by code_simp

lemma shoe_runs:
  "report_summary (run digit_engine shoe_frame False shop_db) = Some (True, 1, 0, 0, [])"
  "report_summary (run digit_engine shoe_frame False (r_db (projr (run digit_engine shoe_frame False shop_db)))) =
     Some (True, 0, 1, 0, [])"
  by code_simp+

lemma two_missing: "missing_columns headers_without_mrp_color = [''MRP'', ''Color'']"
  by code_simp

lemma three_column_frame_missing:
  "missing_column_errors three_column_frame \<noteq> []"
  "filter (\<lambda>c. c \<notin> set (columns three_column_frame)) REQUIRED_COLUMNS = [''mrp'', ''selling_price'']"
  by code_simp+

lemma csv_upload_reads: "read_upload (csv_upload headers rows) = (headers, rows)"
  by (simp add: read_upload_def csv_upload_def csv_extension)

lemma csv_upload_accepted:
  "filename (csv_upload headers rows) \<noteq> [] \<and>
   extension_of (filename (csv_upload headers rows)) \<in> set BULK_ALLOWED_EXTENSIONS"
  by (simp add: csv_upload_def csv_extension BULK_ALLOWED_EXTENSIONS_def)

lemma message_texts:
  "missing_message 3 [''MRP''] = ''Row 3: missing value(s) in MRP''"
  "missing_message 2 [''MRP''] = ''Row 2: missing value(s) in MRP''"
  "missing_message 6 [''MRP''] = ''Row 6: missing value(s) in MRP''"
  "duplicate_message 2 ''1'' = ''Row 2: SKU '' @ [CHR 0x22] @ ''1'' @ [CHR 0x22] @ '' already exists''"
  "duplicate_message 3 ''1'' = ''Row 3: SKU '' @ [CHR 0x22] @ ''1'' @ [CHR 0x22] @ '' already exists''"
  by code_simp+

lemma complete_row_product:
  "build_product_from_bulk_row digit_numerics 0 (complete_row ''1'') required_index =
     Inr (row_product digit_numerics 0 required_index (complete_row ''1''))"
  "sku_of (row_product digit_numerics 0 required_index (complete_row ''1'')) = ''1''"
proof -
  show b: "build_product_from_bulk_row digit_numerics 0 (complete_row ''1'') required_index =
     Inr (row_product digit_numerics 0 required_index (complete_row ''1''))"
    using complete_row_maps by (simp add: row_product_def not_isl_Inr)
  show "sku_of (row_product digit_numerics 0 required_index (complete_row ''1'')) = ''1''"
    using build_product_sku [OF b] by (simp add: complete_row_sku)
qed

lemma old_catalog_has: "find_one_sku old_catalog ''1'' \<noteq> None"
  by code_simp


lemma csv_run:
  assumes "missing_columns headers = []"
  shows "process_bulk_upload_file N now (Some (csv_upload headers rows)) coll =
           ingest_rows N now (header_index_map headers) 2 rows (start_outcome coll)"
proof -
  have "process_bulk_upload_file N now (Some (csv_upload headers rows)) coll =
          ingest_rows N now (header_index_map (fst (read_upload (csv_upload headers rows)))) 2
            (snd (read_upload (csv_upload headers rows))) (start_outcome coll)"
    by (rule process_valid) (simp_all add: csv_upload_accepted csv_upload_reads assms)
  then show ?thesis by (simp only: csv_upload_reads fst_conv snd_conv)
qed

lemma required_run:
  "process_bulk_upload_file N now (Some (csv_upload BULK_REQUIRED_ATTRIBUTES rows)) coll =
     ingest_rows N now required_index 2 rows (start_outcome coll)"
  unfolding required_index_def using required_columns_present by (rule csv_run)

lemma one_complete_fresh: "fresh_rows digit_numerics 0 required_index [] [complete_row ''1'']"
  by (simp add: fresh_rows_def complete_row_values complete_row_maps find_one_sku_def)



lemma shoe_upsert_inputs:
  "categories shop_db_after (p_category_slug shoe_payload) = Some 1"
  "products shop_db_after (p_sku shoe_payload) \<noteq> None"
  "pr_id (the (products shop_db_after (p_sku shoe_payload))) = 1"
  "pr_name (overwritten_row digit_engine 1 1 shoe_payload) = ''Shoe''"
  by code_simp+

lemma report_summary_Some: "report_summary x = Some y \<Longrightarrow> x = Inr (projr x)"
  by (cases x) (simp_all add: report_summary_def)

lemma report_summary_fields:
  "report_summary x = Some (a, b, c, e, f) \<Longrightarrow>
     r_ok (projr x) = a \<and> r_created (projr x) = b \<and> r_updated (projr x) = c"
  by (cases x) (simp_all add: report_summary_def)

lemma one_complete_run:
  "process_bulk_upload_file digit_numerics 0 (Some (csv_upload BULK_REQUIRED_ATTRIBUTES [complete_row ''1''])) [] =
     Inr \<lparr>ok = True, errors = [], created = 1, skipped = 0,
          collection = [row_product digit_numerics 0 required_index (complete_row ''1'')]\<rparr>"
proof -
  have f: "find_one_sku (collection (start_outcome ([]::int product list)))
             (sku_of (row_product digit_numerics 0 required_index (complete_row ''1''))) = None"
    by (simp add: start_outcome_def find_one_sku_def)
  let ?s = "start_outcome ([]::int product list)"
  have "ingest_row digit_numerics 0 required_index 2 (complete_row ''1'') ?s =
          Inr (?s\<lparr>collection := collection ?s @
                   [row_product digit_numerics 0 required_index (complete_row ''1'')],
                 created := created ?s + 1\<rparr>)"
    using complete_row_values complete_row_product(1) f by (rule ingest_row_created)
  then show ?thesis by (simp add: required_run start_outcome_def)
qed

lemma one_complete_duplicate:
  assumes "find_one_sku coll ''1'' \<noteq> None"
  shows "process_bulk_upload_file digit_numerics 0 (Some (csv_upload BULK_REQUIRED_ATTRIBUTES [complete_row ''1''])) coll =
     Inr \<lparr>ok = True, errors = [''Row 2: SKU '' @ [CHR 0x22] @ ''1'' @ [CHR 0x22] @ '' already exists''],
          created = 0, skipped = 1, collection = coll\<rparr>"
proof -
  have f: "find_one_sku (collection (start_outcome coll))
             (sku_of (row_product digit_numerics 0 required_index (complete_row ''1''))) \<noteq> None"
    using assms by (simp add: complete_row_product start_outcome_def)
  have "ingest_row digit_numerics 0 required_index 2 (complete_row ''1'') (start_outcome coll) =
          Inr ((start_outcome coll)\<lparr>skipped := skipped (start_outcome coll) + 1,
                 errors := errors (start_outcome coll) @
                   [duplicate_message 2 (sku_of (row_product digit_numerics 0 required_index (complete_row ''1'')))]\<rparr>)"
    using complete_row_values complete_row_product(1) f by (rule ingest_row_duplicate)
  then show ?thesis
    unfolding complete_row_product(2) message_texts
    by (simp add: required_run start_outcome_def)
qed



















section \<open>The spreadsheet reader\<close>

subsection \<open>Column references\<close>





subsection \<open>Cell values\<close>









subsection \<open>The map of a row\<close>
















subsection \<open>The header row\<close>








subsection \<open>The data rows\<close>





text \<open>
  Claim C10. Whenever the document-oriented run returns with structural validation
  passed, every data row the reader returned is counted exactly once: the created count
  plus the skipped count is the number of these rows, the number of error strings is the
  skipped count, and the catalog has grown by the created count. The run does return
  then, unless the mapper raises on a row that has all its required values.
\<close>

theorem report_consistency:
  "(process_bulk_upload_file N now (Some fs) coll = Inr r \<and> ok r \<longrightarrow>
      created r + skipped r = length (snd (read_upload fs)) \<and>
      length (errors r) = skipped r \<and>
      length (collection r) = length coll + created r) \<and>
   (filename fs \<noteq> [] \<and> extension_of (filename fs) \<in> set BULK_ALLOWED_EXTENSIONS \<and>
    missing_columns (fst (read_upload fs)) = [] \<and>
    (\<forall>row \<in> set (snd (read_upload fs)).
       missing_values row (header_index_map (fst (read_upload fs))) = [] \<longrightarrow>
       (\<exists>p. build_product_from_bulk_row N now row (header_index_map (fst (read_upload fs))) = Inr p)) \<longrightarrow>
      (\<exists>r'. process_bulk_upload_file N now (Some fs) coll = Inr r' \<and> ok r'))"
proof (intro conjI impI)
  assume "process_bulk_upload_file N now (Some fs) coll = Inr r \<and> ok r"
  then have a: "created r + skipped r = length (snd (read_upload fs)) \<and> length (errors r) = skipped r \<and>
         length (collection r) = length coll + created r"
    using report_consistency_lemma by blast
  show "created r + skipped r = length (snd (read_upload fs))" using a by blast
  show "length (errors r) = skipped r" using a by blast
  show "length (collection r) = length coll + created r" using a by blast
next
  assume "filename fs \<noteq> [] \<and> extension_of (filename fs) \<in> set BULK_ALLOWED_EXTENSIONS \<and>
    missing_columns (fst (read_upload fs)) = [] \<and>
    (\<forall>row \<in> set (snd (read_upload fs)).
       missing_values row (header_index_map (fst (read_upload fs))) = [] \<longrightarrow>
       (\<exists>p. build_product_from_bulk_row N now row (header_index_map (fst (read_upload fs))) = Inr p))"
  then show "\<exists>r'. process_bulk_upload_file N now (Some fs) coll = Inr r' \<and> ok r'"
    by (elim conjE) (rule process_returns)
qed

theorem report_consistency_witness:
  "summary (process_bulk_upload_file digit_numerics 0
              (Some (csv_upload BULK_REQUIRED_ATTRIBUTES [complete_row ''1'', no_mrp_row])) []) =
     Some (True, [''Row 3: missing value(s) in MRP''], 1, 1, [''1'']) \<and>
   (1::nat) + 1 = length [complete_row ''1'', no_mrp_row] \<and>
   length [''Row 3: missing value(s) in MRP''] = (1::nat)"
proof -
  let ?fs = "csv_upload BULK_REQUIRED_ATTRIBUTES [complete_row ''1'', no_mrp_row]"
  let ?p = "row_product digit_numerics 0 required_index (complete_row ''1'')"
  let ?r = "\<lparr>ok = True, errors = [missing_message 3 [''MRP'']], created = 1, skipped = 1,
             collection = [] @ map (row_product digit_numerics 0 required_index) ([complete_row ''1''] @ [])\<rparr>"
  have bad: "missing_values no_mrp_row required_index \<noteq> []"
    by (simp add: no_mrp_row_values)
  have "ingest_rows digit_numerics 0 required_index 2 ([complete_row ''1''] @ no_mrp_row # []) (start_outcome []) =
          Inr \<lparr>ok = True, errors = [missing_message (length [complete_row ''1''] + 2) (missing_values no_mrp_row required_index)],
                created = length [complete_row ''1''] + length ([]::row list), skipped = 1,
                collection = [] @ map (row_product digit_numerics 0 required_index) ([complete_row ''1''] @ [])\<rparr>"
    using one_complete_fresh bad by (intro ingest_one_incomplete) simp_all
  then have "ingest_rows digit_numerics 0 required_index 2 [complete_row ''1'', no_mrp_row] (start_outcome []) = Inr ?r"
    by (simp add: no_mrp_row_values numeral_3_eq_3)
  then have run: "process_bulk_upload_file digit_numerics 0 (Some ?fs) [] = Inr ?r"
    by (simp only: required_run)
  have okr: "ok ?r" by simp
  have c: "created ?r + skipped ?r = length (snd (read_upload ?fs)) \<and> length (errors ?r) = skipped ?r"
    using report_consistency [of digit_numerics 0 ?fs "[]" ?r] run okr by blast
  have s: "summary (process_bulk_upload_file digit_numerics 0 (Some ?fs) []) =
             Some (True, [''Row 3: missing value(s) in MRP''], 1, 1, [''1''])"
    by (simp add: run summary_def message_texts complete_row_product)
  show ?thesis using s c by (simp add: csv_upload_reads)
qed




lemma set_missing_columns:
  "set (missing_columns headers) =
     {h \<in> set BULK_REQUIRED_ATTRIBUTES.
        normalize_bulk_header h \<notin> normalize_bulk_header ` {x \<in> set headers. x \<noteq> []}}"
  by (auto simp: missing_columns_def normalized_headers_def)

text \<open>
  Claim C2, as amended. A file that misses one or more required columns is rejected
  before any row is processed and nothing is persisted. The document-oriented run
  reports exactly one combined error message, which names every missing column, with a
  created and a skipped count of zero. The relational engine reports one message per
  missing column, each naming its column, a skipped count equal to the number of missing
  columns and a created and an updated count of zero.
\<close>

theorem missing_columns_abort:
  "(filename fs \<noteq> [] \<and> extension_of (filename fs) \<in> set BULK_ALLOWED_EXTENSIONS \<and>
    missing_columns (fst (read_upload fs)) \<noteq> [] \<longrightarrow>
      process_bulk_upload_file N now (Some fs) coll =
        Inr \<lparr>ok = False,
             errors = [''Missing required column(s): '' @ join '', '' (missing_columns (fst (read_upload fs)))],
             created = 0, skipped = 0, collection = coll\<rparr> \<and>
      (\<forall>c \<in> set (missing_columns (fst (read_upload fs))).
         contains c (''Missing required column(s): '' @ join '', '' (missing_columns (fst (read_upload fs)))))) \<and>
   set (missing_columns headers) =
     {h \<in> set BULK_REQUIRED_ATTRIBUTES.
        normalize_bulk_header h \<notin> normalize_bulk_header ` {x \<in> set headers. x \<noteq> []}} \<and>
   (missing_column_errors fr \<noteq> [] \<longrightarrow>
      run E fr dry_run d =
        Inr \<lparr>r_ok = False, r_created = 0, r_updated = 0,
             r_skipped = length (filter (\<lambda>c. c \<notin> set (columns fr)) REQUIRED_COLUMNS),
             r_errors = map (\<lambda>c. ''Row 1: Missing required column '' @ [CHR 0x27] @ c @ [CHR 0x27])
                            (filter (\<lambda>c. c \<notin> set (columns fr)) REQUIRED_COLUMNS),
             r_db = d\<rparr>)"
proof (intro conjI impI ballI)
  assume a: "filename fs \<noteq> [] \<and> extension_of (filename fs) \<in> set BULK_ALLOWED_EXTENSIONS \<and>
    missing_columns (fst (read_upload fs)) \<noteq> []"
  then show "process_bulk_upload_file N now (Some fs) coll =
        Inr \<lparr>ok = False,
             errors = [''Missing required column(s): '' @ join '', '' (missing_columns (fst (read_upload fs)))],
             created = 0, skipped = 0, collection = coll\<rparr>"
    using process_missing_columns [of fs N now coll] by (simp add: failed_outcome_def)
  fix c assume "c \<in> set (missing_columns (fst (read_upload fs)))"
  then show "contains c (''Missing required column(s): '' @ join '', '' (missing_columns (fst (read_upload fs))))"
    by (rule contains_join)
next
  show "set (missing_columns headers) =
     {h \<in> set BULK_REQUIRED_ATTRIBUTES.
        normalize_bulk_header h \<notin> normalize_bulk_header ` {x \<in> set headers. x \<noteq> []}}"
    by (rule set_missing_columns)
next
  assume "missing_column_errors fr \<noteq> []"
  then show "run E fr dry_run d =
        Inr \<lparr>r_ok = False, r_created = 0, r_updated = 0,
             r_skipped = length (filter (\<lambda>c. c \<notin> set (columns fr)) REQUIRED_COLUMNS),
             r_errors = map (\<lambda>c. ''Row 1: Missing required column '' @ [CHR 0x27] @ c @ [CHR 0x27])
                            (filter (\<lambda>c. c \<notin> set (columns fr)) REQUIRED_COLUMNS),
             r_db = d\<rparr>"
    by (rule run_missing_columns)
qed

theorem missing_columns_abort_witness:
  "summary (process_bulk_upload_file digit_numerics 0
              (Some (csv_upload headers_without_mrp_color [complete_row ''1''])) old_catalog) =
     Some (False, [''Missing required column(s): MRP, Color''], 0, 0, [''1'']) \<and>
   catalog_after (process_bulk_upload_file digit_numerics 0
              (Some (csv_upload headers_without_mrp_color [complete_row ''1''])) old_catalog) =
     Some old_catalog \<and>
   contains ''Color'' ''Missing required column(s): MRP, Color'' \<and>
   report_summary (run digit_engine three_column_frame True shop_db) =
     Some (False, 0, 0, 2, [''Row 1: Missing required column '' @ [CHR 0x27] @ ''mrp'' @ [CHR 0x27],
                           ''Row 1: Missing required column '' @ [CHR 0x27] @ ''selling_price'' @ [CHR 0x27]])"
proof -
  let ?fs = "csv_upload headers_without_mrp_color [complete_row ''1'']"
  have h: "filename ?fs \<noteq> [] \<and> extension_of (filename ?fs) \<in> set BULK_ALLOWED_EXTENSIONS \<and>
           missing_columns (fst (read_upload ?fs)) \<noteq> []"
    using csv_upload_accepted [of headers_without_mrp_color] by (simp add: csv_upload_reads two_missing)
  have m: "missing_columns (fst (read_upload ?fs)) = [''MRP'', ''Color'']"
    by (simp add: csv_upload_reads two_missing)
  have t: "''Missing required column(s): '' @ join '', '' [''MRP'', ''Color''] =
           ''Missing required column(s): MRP, Color''"
    by code_simp
  note inst = missing_columns_abort [of ?fs digit_numerics 0 old_catalog _ three_column_frame
      digit_engine True shop_db]
  have run: "process_bulk_upload_file digit_numerics 0 (Some ?fs) old_catalog =
        Inr \<lparr>ok = False, errors = [''Missing required column(s): MRP, Color''],
             created = 0, skipped = 0, collection = old_catalog\<rparr>"
    using inst h unfolding m t by blast
  have c: "contains ''Color'' ''Missing required column(s): MRP, Color''"
    using inst h unfolding m t by simp
  have rel: "run digit_engine three_column_frame True shop_db =
        Inr \<lparr>r_ok = False, r_created = 0, r_updated = 0, r_skipped = length [''mrp'', ''selling_price''],
             r_errors = map (\<lambda>c. ''Row 1: Missing required column '' @ [CHR 0x27] @ c @ [CHR 0x27])
                            [''mrp'', ''selling_price''],
             r_db = shop_db\<rparr>"
    using inst three_column_frame_missing(1) unfolding three_column_frame_missing(2) by blast
  show ?thesis
    unfolding run rel using c
    by (simp add: summary_def catalog_after_def report_summary_def) (simp add: old_catalog_def sku_of_def)
qed

text \<open>
  The claim as it was written has exactly one combined message. The relational engine,
  given a frame without the columns \<open>mrp\<close> and \<open>selling_price\<close>, reports two.
\<close>

theorem one_message_per_column_counterexample:
  "report_summary (run digit_engine three_column_frame False shop_db) =
     Some (False, 0, 0, 2, [''Row 1: Missing required column '' @ [CHR 0x27] @ ''mrp'' @ [CHR 0x27],
                           ''Row 1: Missing required column '' @ [CHR 0x27] @ ''selling_price'' @ [CHR 0x27]])"
  by code_simp

text \<open>
  Claim C1, as amended. Re-ingesting a row whose SKU is already in the catalog never
  creates a duplicate product. In the document-oriented run such a row, when it has all
  its required values, is counted as skipped with an "already exists" error and the
  stored product is left as it is; ingesting a file a second time, into the catalog the
  first run left, creates nothing, skips every row and leaves the catalog unchanged. In
  the relational engine the upsert of a payload whose SKU exists (and whose category
  resolves) keeps the product's identifier, reports it as not inserted and overwrites
  the stored fields with the payload's values; running a frame a second time, on the
  database the first run left, counts every row as updated and none as created, and the
  set of SKUs in the catalog is unchanged.
\<close>

theorem existing_sku_never_duplicated:
  "(missing_values row im = [] \<and> build_product_from_bulk_row N now row im = Inr p \<and>
    find_one_sku (collection st) (sku_of p) \<noteq> None \<longrightarrow>
      ingest_row N now im k row st =
        Inr (st\<lparr>skipped := skipped st + 1,
                errors := errors st @ [duplicate_message k (sku_of p)]\<rparr>)) \<and>
   (process_bulk_upload_file N now (Some fs) coll = Inr r1 \<and> ok r1 \<longrightarrow>
      (\<exists>es. process_bulk_upload_file N now (Some fs) (collection r1) =
              Inr \<lparr>ok = True, errors = es, created = 0, skipped = length (snd (read_upload fs)),
                   collection = collection r1\<rparr>)) \<and>
   (categories d (p_category_slug pl) = Some cid \<and> products d (p_sku pl) = Some old \<longrightarrow>
      upsert_product E d pl =
        Inr ((pr_id old, False),
             d\<lparr>products := (products d)(p_sku pl \<mapsto> overwritten_row E (pr_id old) cid pl)\<rparr>)) \<and>
   (run E fr False d0 = Inr rep1 \<and> r_ok rep1 \<and> run E fr False (r_db rep1) = Inr rep2 \<longrightarrow>
      r_ok rep2 \<and> r_created rep2 = 0 \<and> r_updated rep2 = length (frows fr) \<and>
      dom (products (r_db rep2)) = dom (products (r_db rep1)))"
proof (intro conjI impI)
  assume "missing_values row im = [] \<and> build_product_from_bulk_row N now row im = Inr p \<and>
    find_one_sku (collection st) (sku_of p) \<noteq> None"
  then show "ingest_row N now im k row st =
        Inr (st\<lparr>skipped := skipped st + 1,
                errors := errors st @ [duplicate_message k (sku_of p)]\<rparr>)"
    by (elim conjE) (rule ingest_row_duplicate)
next
  assume "process_bulk_upload_file N now (Some fs) coll = Inr r1 \<and> ok r1"
  then show "\<exists>es. process_bulk_upload_file N now (Some fs) (collection r1) =
              Inr \<lparr>ok = True, errors = es, created = 0, skipped = length (snd (read_upload fs)),
                   collection = collection r1\<rparr>"
    by (elim conjE) (rule reingest_creates_nothing)
next
  assume "categories d (p_category_slug pl) = Some cid \<and> products d (p_sku pl) = Some old"
  then show "upsert_product E d pl =
        Inr ((pr_id old, False),
             d\<lparr>products := (products d)(p_sku pl \<mapsto> overwritten_row E (pr_id old) cid pl)\<rparr>)"
    by (elim conjE) (rule upsert_existing)
next
  assume a: "run E fr False d0 = Inr rep1 \<and> r_ok rep1 \<and> run E fr False (r_db rep1) = Inr rep2"
  then have b: "r_ok rep2 \<and> r_created rep2 = 0 \<and> r_updated rep2 = length (frows fr) \<and>
      dom (products (r_db rep2)) = dom (products (r_db rep1))"
    by (elim conjE) (rule rerun_updates)
  show "r_ok rep2" using b by blast
  show "r_created rep2 = 0" using b by blast
  show "r_updated rep2 = length (frows fr)" using b by blast
  show "dom (products (r_db rep2)) = dom (products (r_db rep1))" using b by blast
qed

theorem existing_sku_witness:
  "summary (process_bulk_upload_file digit_numerics 0
              (Some (csv_upload BULK_REQUIRED_ATTRIBUTES [complete_row ''1'']))
              [row_product digit_numerics 0 required_index (complete_row ''1'')]) =
     Some (True, [''Row 2: SKU '' @ [CHR 0x22] @ ''1'' @ [CHR 0x22] @ '' already exists''], 0, 1, [''1'']) \<and>
   fst (projr (upsert_product digit_engine shop_db_after shoe_payload)) = (1, False) \<and>
   report_summary (run digit_engine shoe_frame False shop_db_after) = Some (True, 0, 1, 0, [])"
proof -
  let ?fs = "csv_upload BULK_REQUIRED_ATTRIBUTES [complete_row ''1'']"
  let ?p = "row_product digit_numerics 0 required_index (complete_row ''1'')"
  let ?r1 = "\<lparr>ok = True, errors = [], created = 1, skipped = 0, collection = [?p]\<rparr>"
  text \<open>the document-oriented run, twice\<close>
  have run1: "process_bulk_upload_file digit_numerics 0 (Some ?fs) [] = Inr ?r1"
    by (rule one_complete_run)
  obtain es where run2: "process_bulk_upload_file digit_numerics 0 (Some ?fs) (collection ?r1) =
      Inr \<lparr>ok = True, errors = es, created = 0, skipped = length (snd (read_upload ?fs)),
           collection = collection ?r1\<rparr>"
    using existing_sku_never_duplicated
      [where N = digit_numerics and now = 0 and fs = ?fs and coll = "[]" and ?r1.0 = ?r1,
         THEN conjunct2, THEN conjunct1] run1
    by auto
  have step: "ingest_row digit_numerics 0 required_index 2 (complete_row ''1'') (start_outcome [?p]) =
      Inr ((start_outcome [?p])\<lparr>skipped := skipped (start_outcome [?p]) + 1,
             errors := errors (start_outcome [?p]) @ [duplicate_message 2 (sku_of ?p)]\<rparr>)"
    using existing_sku_never_duplicated
      [where row = "complete_row ''1''" and im = required_index and N = digit_numerics and now = 0
         and p = ?p and st = "start_outcome [?p]" and k = 2, THEN conjunct1]
      complete_row_values complete_row_product(1) find_one_sku_own [OF complete_row_product(1), of "[]"]
    by (simp add: start_outcome_def)
  have "process_bulk_upload_file digit_numerics 0 (Some ?fs) [?p] =
      Inr ((start_outcome [?p])\<lparr>skipped := skipped (start_outcome [?p]) + 1,
             errors := errors (start_outcome [?p]) @ [duplicate_message 2 (sku_of ?p)]\<rparr>)"
    by (simp add: required_run step)
  then have a: "summary (process_bulk_upload_file digit_numerics 0 (Some ?fs) [?p]) =
     Some (True, [''Row 2: SKU '' @ [CHR 0x22] @ ''1'' @ [CHR 0x22] @ '' already exists''], 0, 1, [''1''])"
    using run2 unfolding complete_row_product(2) message_texts
    by (simp add: summary_def start_outcome_def complete_row_product)
  text \<open>the relational upsert of an existing SKU\<close>
  have old: "products shop_db_after (p_sku shoe_payload) = Some (the (products shop_db_after (p_sku shoe_payload)))"
    using shoe_upsert_inputs(2) by simp
  have "upsert_product digit_engine shop_db_after shoe_payload =
      Inr ((pr_id (the (products shop_db_after (p_sku shoe_payload))), False),
           shop_db_after\<lparr>products := (products shop_db_after)(p_sku shoe_payload \<mapsto>
             overwritten_row digit_engine (pr_id (the (products shop_db_after (p_sku shoe_payload)))) 1 shoe_payload)\<rparr>)"
    using existing_sku_never_duplicated
      [where d = shop_db_after and pl = shoe_payload and cid = 1 and E = digit_engine
         and old = "the (products shop_db_after (p_sku shoe_payload))",
         THEN conjunct2, THEN conjunct2, THEN conjunct1]
      shoe_upsert_inputs(1) old
    by blast
  then have b: "fst (projr (upsert_product digit_engine shop_db_after shoe_payload)) = (1, False)"
    by (simp add: shoe_upsert_inputs(3))
  text \<open>the relational run, twice\<close>
  let ?x1 = "run digit_engine shoe_frame False shop_db"
  let ?x2 = "run digit_engine shoe_frame False (r_db (projr ?x1))"
  have h: "?x1 = Inr (projr ?x1) \<and> r_ok (projr ?x1) \<and> ?x2 = Inr (projr ?x2)"
    using report_summary_Some [OF shoe_runs(1)] report_summary_Some [OF shoe_runs(2)]
      report_summary_fields [OF shoe_runs(1)]
    by simp
  have "r_ok (projr ?x2) \<and> r_created (projr ?x2) = 0 \<and> r_updated (projr ?x2) = length (frows shoe_frame)"
    using existing_sku_never_duplicated
      [where E = digit_engine and fr = shoe_frame and ?d0.0 = shop_db and ?rep1.0 = "projr ?x1"
         and ?rep2.0 = "projr ?x2", THEN conjunct2, THEN conjunct2, THEN conjunct2]
      h
    by metis
  then have c: "report_summary (run digit_engine shoe_frame False shop_db_after) = Some (True, 0, 1, 0, [])"
    using shoe_runs(2) by (simp add: shop_db_after_def)
  show ?thesis using a b c by blast
qed

text \<open>
  The claim as it was written has the row counted as updated and the stored product
  overwritten. In the document-oriented run, a complete row with the SKU \<open>1\<close> ingested
  into a catalog that holds the SKU \<open>1\<close> is counted as skipped, with an error, and the
  catalog, the stored product's name included, is what it was.
\<close>

theorem existing_sku_skipped_counterexample:
  "summary (process_bulk_upload_file digit_numerics 0
              (Some (csv_upload BULK_REQUIRED_ATTRIBUTES [complete_row ''1''])) old_catalog) =
     Some (True, [''Row 2: SKU '' @ [CHR 0x22] @ ''1'' @ [CHR 0x22] @ '' already exists''], 0, 1, [''1'']) \<and>
   catalog_after (process_bulk_upload_file digit_numerics 0
              (Some (csv_upload BULK_REQUIRED_ATTRIBUTES [complete_row ''1''])) old_catalog) =
     Some old_catalog \<and>
   map_of (hd old_catalog) ''name'' = Some (PStr ''Old name'')"
  unfolding one_complete_duplicate [OF old_catalog_has]
  by (simp add: summary_def catalog_after_def) (simp add: old_catalog_def sku_of_def)




end
